theory Spec2Isabelle
  imports Main "HOL-Library.Word" "HOL-Library.Extended_Nat" "HOL-Library.AList"
begin

section \<open>Strings\<close>

text \<open>
  A JavaScript string is a sequence of UTF-16 code units; \<open>length\<close> and \<open>slice\<close> count
  code units. String literals of the source are written \<open>lit ''...''\<close>.
\<close>

type_synonym code_unit = "16 word"
type_synonym js_string = "code_unit list"

definition lit :: "string \<Rightarrow> js_string" where
  "lit s = map of_char s"

text \<open>
  \<open>String.prototype.slice(start, end)\<close>: a negative index counts from the end of the
  string, and both indices are clamped to the string.
\<close>

definition slice_index :: "nat \<Rightarrow> int \<Rightarrow> nat" where
  "slice_index len i = (if i < 0 then nat (max (int len + i) 0) else min (nat i) len)"

definition slice :: "js_string \<Rightarrow> int \<Rightarrow> int \<Rightarrow> js_string" where
  "slice s start stop =
     (let from = slice_index (length s) start;
          to = slice_index (length s) stop
      in take (to - from) (drop from s))"

section \<open>Status extraction\<close>

datatype status = Investigating | Identified | Monitoring | Update | Resolved | Unknown

text \<open>
  The eight regular expressions of \<open>statusPatterns\<close> are of two shapes, both with the
  \<open>i\<close> flag and without the \<open>u\<close> flag: a literal text (\<open>/<strong>Resolved<\/strong>/i\<close>),
  and a literal text between two word boundaries (\<open>/\bResolved\b/i\<close>).
\<close>

datatype regex = Literal js_string | Bounded js_string

text \<open>
  Case-insensitive comparison canonicalises both code units by upper-casing. Without
  the \<open>u\<close> flag a code unit of 128 or more never canonicalises to an ASCII one, and
  every code unit of the patterns is ASCII, so folding the ASCII lower-case letters
  decides every comparison against a pattern.
\<close>

definition canonicalize :: "code_unit \<Rightarrow> code_unit" where
  "canonicalize c = (if 0x61 \<le> c \<and> c \<le> 0x7A then c - 0x20 else c)"

text \<open>The word characters of \<open>\b\<close>: \<open>[A-Za-z0-9_]\<close>.\<close>

definition is_word_char :: "code_unit \<Rightarrow> bool" where
  "is_word_char c \<longleftrightarrow>
     (0x30 \<le> c \<and> c \<le> 0x39) \<or> (0x41 \<le> c \<and> c \<le> 0x5A) \<or> (0x61 \<le> c \<and> c \<le> 0x7A) \<or> c = 0x5F"

fun is_word :: "code_unit option \<Rightarrow> bool" where
  "is_word None = False"
| "is_word (Some c) = is_word_char c"

text \<open>
  \<open>\b\<close> holds between two neighbouring positions when exactly one of them holds a word
  character; outside the string there is none.
\<close>

definition word_boundary :: "code_unit option \<Rightarrow> code_unit option \<Rightarrow> bool" where
  "word_boundary before after \<longleftrightarrow> is_word before \<noteq> is_word after"

fun head_opt :: "js_string \<Rightarrow> code_unit option" where
  "head_opt [] = None"
| "head_opt (c # cs) = Some c"

fun last_opt :: "code_unit option \<Rightarrow> js_string \<Rightarrow> code_unit option" where
  "last_opt prev [] = prev"
| "last_opt prev (c # cs) = last_opt (Some c) cs"

fun ci_prefix :: "js_string \<Rightarrow> js_string \<Rightarrow> bool" where
  "ci_prefix [] t = True"
| "ci_prefix (p # ps) [] = False"
| "ci_prefix (p # ps) (c # cs) = (canonicalize p = canonicalize c \<and> ci_prefix ps cs)"

text \<open>
  Whether the expression matches at the current position: \<open>prev\<close> is the code unit
  just before it (none at the start of the string), \<open>t\<close> the rest of the string.
\<close>

fun match_here :: "regex \<Rightarrow> code_unit option \<Rightarrow> js_string \<Rightarrow> bool" where
  "match_here (Literal p) prev t = ci_prefix p t"
| "match_here (Bounded p) prev t =
     (word_boundary prev (head_opt t) \<and> ci_prefix p t \<and>
      word_boundary (last_opt prev (take (length p) t)) (head_opt (drop (length p) t)))"

text \<open>
  \<open>regex.exec(description)\<close> for an expression without the \<open>g\<close> flag: the index of the
  leftmost match, or \<open>null\<close>.
\<close>

fun exec_from :: "regex \<Rightarrow> code_unit option \<Rightarrow> js_string \<Rightarrow> nat \<Rightarrow> nat option" where
  "exec_from re prev [] i = (if match_here re prev [] then Some i else None)"
| "exec_from re prev (c # cs) i =
     (if match_here re prev (c # cs) then Some i else exec_from re (Some c) cs (Suc i))"

definition regex_exec :: "regex \<Rightarrow> js_string \<Rightarrow> nat option" where
  "regex_exec re s = exec_from re None s 0"

definition statusPatterns :: "(regex \<times> status) list" where
  "statusPatterns =
     [(Literal (lit ''<strong>Resolved</strong>''), Resolved),
      (Literal (lit ''<strong>Monitoring</strong>''), Monitoring),
      (Literal (lit ''<strong>Identified</strong>''), Identified),
      (Literal (lit ''<strong>Investigating</strong>''), Investigating),
      (Bounded (lit ''Resolved''), Resolved),
      (Bounded (lit ''Monitoring''), Monitoring),
      (Bounded (lit ''Identified''), Identified),
      (Bounded (lit ''Investigating''), Investigating)]"

text \<open>The running \<open>firstMatch\<close> object; its position starts at \<open>Infinity\<close>.\<close>

record first_match =
  position :: enat
  match_status :: status

definition check_pattern :: "js_string \<Rightarrow> first_match \<Rightarrow> regex \<times> status \<Rightarrow> first_match" where
  "check_pattern description firstMatch pat =
     (case regex_exec (fst pat) description of
        None \<Rightarrow> firstMatch
      | Some index \<Rightarrow>
          if enat index < position firstMatch
          then \<lparr>position = enat index, match_status = snd pat\<rparr>
          else firstMatch)"

definition extractCurrentStatus :: "js_string \<Rightarrow> status" where
  "extractCurrentStatus description =
     match_status
       (foldl (check_pattern description) \<lparr>position = \<infinity>, match_status = Unknown\<rparr> statusPatterns)"

text \<open>
  An occurrence of an expression at index \<open>i\<close> of a string, and of the \<open>k\<close>-th status
  pattern (in the order of \<open>statusPatterns\<close>) at index \<open>i\<close> of a narrative.
\<close>

definition occurs_at :: "regex \<Rightarrow> js_string \<Rightarrow> nat \<Rightarrow> bool" where
  "occurs_at re s i \<longleftrightarrow> i \<le> length s \<and> match_here re (last_opt None (take i s)) (drop i s)"

definition keyword_at :: "js_string \<Rightarrow> nat \<Rightarrow> nat \<Rightarrow> bool" where
  "keyword_at d k i \<longleftrightarrow> k < length statusPatterns \<and> occurs_at (fst (statusPatterns ! k)) d i"

section \<open>Message rendering\<close>

definition truncateText :: "js_string \<Rightarrow> int \<Rightarrow> js_string" where
  "truncateText text maxLength =
     (if int (length text) \<le> maxLength then text
      else slice text 0 (maxLength - 20) @ [0x0A, 0x0A] @ lit ''_...and more_'')"

section \<open>Data model\<close>

text \<open>A feed item as \<open>parseRssFeed\<close> returns it.\<close>

record item =
  guid :: js_string
  title :: js_string
  description :: js_string
  pubDate :: js_string
  link :: js_string

text \<open>
  The object \<open>{ ...item, status, firstSeen }\<close> that is handed to \<open>postNewIncident\<close> and
  \<open>updateIncidentMessage\<close>.
\<close>

record incident = item +
  status :: status
  firstSeen :: js_string

definition spread_item :: "item \<Rightarrow> status \<Rightarrow> js_string \<Rightarrow> incident" where
  "spread_item it st seen =
     \<lparr>guid = guid it, title = title it, description = description it, pubDate = pubDate it,
      link = link it, status = st, firstSeen = seen\<rparr>"

text \<open>
  An entry of the state object, as the new-incident branch builds it.
  \<open>slack_message_ts\<close> is a string or \<open>null\<close>. The fields \<open>title\<close>, \<open>status\<close> and \<open>link\<close> of
  the source carry the prefix \<open>entry_\<close> here.
\<close>

record entry =
  entry_title :: js_string
  description_hash :: js_string
  entry_status :: status
  first_seen :: js_string
  last_updated :: js_string
  slack_message_ts :: "js_string option"
  entry_link :: js_string

text \<open>
  The objects that the run stores. The update branch stores
  \<open>{ ...existing, description_hash, status, last_updated }\<close>: when \<open>existing\<close> is an entry,
  that is an entry again. \<open>state[incidentId]\<close> can also find a value that is not an entry
  (see \<open>get_property\<close>); then the object stored has the three fields only, after the
  index properties \<open>0\<close>, \<open>1\<close>, ... that spreading a string gives, one for each code unit:
  \<open>Partial chars description_hash status last_updated\<close>.
\<close>

datatype stored = Entry entry | Partial js_string js_string status js_string

text \<open>
  The own properties of the state object, in the order of their creation. An
  assignment replaces the value of an own property in place and appends a new one at
  the end (\<open>AList.update\<close>). JavaScript enumerates the properties whose names are array
  indices before the others; only \<open>JSON.stringify\<close>, a parameter here, observes that.
\<close>

type_synonym store = "(js_string \<times> stored) list"

text \<open>
  The state object is a plain object: \<open>{}\<close> or what \<open>JSON.parse\<close> returned. Its prototype
  is \<open>Object.prototype\<close> (\<open>None\<close>) until an assignment to \<open>__proto__\<close> replaces it by an
  object of the run (\<open>Some\<close>).
\<close>

type_synonym state_object = "store \<times> stored option"

text \<open>The values that \<open>state[incidentId]\<close> can have.\<close>

datatype jsval =
    Undefined
  | Null
  | StringVal js_string
  | FunctionVal
  | ObjectPrototype
  | ObjectVal stored

text \<open>The property names of \<open>Object.prototype\<close>; all but \<open>__proto__\<close> hold functions.\<close>

definition Object_prototype_names :: "js_string list" where
  "Object_prototype_names =
     [lit ''constructor'', lit ''__defineGetter__'', lit ''__defineSetter__'',
      lit ''hasOwnProperty'', lit ''__lookupGetter__'', lit ''__lookupSetter__'',
      lit ''isPrototypeOf'', lit ''propertyIsEnumerable'', lit ''toString'', lit ''valueOf'',
      lit ''__proto__'', lit ''toLocaleString'']"

fun status_name :: "status \<Rightarrow> js_string" where
  "status_name Investigating = lit ''investigating''"
| "status_name Identified = lit ''identified''"
| "status_name Monitoring = lit ''monitoring''"
| "status_name Update = lit ''update''"
| "status_name Resolved = lit ''resolved''"
| "status_name Unknown = lit ''unknown''"

text \<open>The name of the index property \<open>n\<close>: \<open>n\<close> in decimal.\<close>

function index_key :: "nat \<Rightarrow> js_string" where
  "index_key n =
     (if n < 10 then [0x30 + of_nat n]
      else index_key (n div 10) @ [0x30 + of_nat (n mod 10)])"
  by pat_completeness auto
termination
  by (relation "measure id") auto

declare index_key.simps [simp del]

text \<open>The own properties of a stored object.\<close>

fun own_fields :: "stored \<Rightarrow> (js_string \<times> jsval) list" where
  "own_fields (Entry e) =
     [(lit ''title'', StringVal (entry_title e)),
      (lit ''description_hash'', StringVal (description_hash e)),
      (lit ''status'', StringVal (status_name (entry_status e))),
      (lit ''first_seen'', StringVal (first_seen e)),
      (lit ''last_updated'', StringVal (last_updated e)),
      (lit ''slack_message_ts'',
         (case slack_message_ts e of None \<Rightarrow> Null | Some messageTs \<Rightarrow> StringVal messageTs)),
      (lit ''link'', StringVal (entry_link e))]"
| "own_fields (Partial chars h s t) =
     zip (map index_key [0..<length chars]) (map (\<lambda>c. StringVal [c]) chars) @
     [(lit ''description_hash'', StringVal h),
      (lit ''status'', StringVal (status_name s)),
      (lit ''last_updated'', StringVal t)]"

text \<open>
  \<open>state[key]\<close>: an own property of the state object; else a property of the object
  that was made its prototype; else a property of \<open>Object.prototype\<close>, where the getter
  \<open>__proto__\<close> returns the prototype of the state object.
\<close>

definition get_property :: "store \<Rightarrow> stored option \<Rightarrow> js_string \<Rightarrow> jsval" where
  "get_property state proto key =
     (case map_of state key of
        Some v \<Rightarrow> ObjectVal v
      | None \<Rightarrow>
          (case (case proto of None \<Rightarrow> None | Some p \<Rightarrow> map_of (own_fields p) key) of
             Some v \<Rightarrow> v
           | None \<Rightarrow>
               if key = lit ''__proto__''
               then (case proto of None \<Rightarrow> ObjectPrototype | Some p \<Rightarrow> ObjectVal p)
               else if key \<in> set Object_prototype_names then FunctionVal
               else Undefined))"

text \<open>
  \<open>state[key] = value\<close>, for an object \<open>value\<close>: where the state object has no own
  property \<open>__proto__\<close>, the assignment to that name calls the setter of
  \<open>Object.prototype\<close>, which makes \<open>value\<close> the prototype and stores nothing. Every other
  assignment sets an own property: the properties that can be inherited are writable
  data properties.
\<close>

definition set_property :: "store \<Rightarrow> stored option \<Rightarrow> js_string \<Rightarrow> stored \<Rightarrow> state_object" where
  "set_property state proto key v =
     (if map_of state key = None \<and> key = lit ''__proto__'' then (state, Some v)
      else (AList.update key v state, proto))"

text \<open>Truthiness of a value.\<close>

fun truthy_val :: "jsval \<Rightarrow> bool" where
  "truthy_val Undefined = False"
| "truthy_val Null = False"
| "truthy_val (StringVal s) = (s \<noteq> [])"
| "truthy_val FunctionVal = True"
| "truthy_val ObjectPrototype = True"
| "truthy_val (ObjectVal v) = True"

text \<open>
  \<open>existing.description_hash\<close>: a string has no such property, neither has a function
  nor \<open>Object.prototype\<close>.
\<close>

fun existing_description_hash :: "jsval \<Rightarrow> jsval" where
  "existing_description_hash (ObjectVal (Entry e)) = StringVal (description_hash e)"
| "existing_description_hash (ObjectVal (Partial chars h s t)) = StringVal h"
| "existing_description_hash existing = Undefined"

text \<open>
  \<open>{ ...existing, description_hash, status, last_updated }\<close>. Spreading copies the own
  enumerable properties: the fields of an object of the run, the code units of a
  string, nothing of a function or of \<open>Object.prototype\<close>.
\<close>

fun updated_object :: "jsval \<Rightarrow> js_string \<Rightarrow> status \<Rightarrow> js_string \<Rightarrow> stored" where
  "updated_object (ObjectVal (Entry e)) h s t =
     Entry (e\<lparr>description_hash := h, entry_status := s, last_updated := t\<rparr>)"
| "updated_object (ObjectVal (Partial chars h' s' t')) h s t = Partial chars h s t"
| "updated_object (StringVal str) h s t = Partial str h s t"
| "updated_object existing h s t = Partial [] h s t"

text \<open>
  The fingerprint and the message identifier of a stored object; an object without the
  field \<open>slack_message_ts\<close> has none.
\<close>

fun stored_hash :: "stored \<Rightarrow> js_string" where
  "stored_hash (Entry e) = description_hash e"
| "stored_hash (Partial chars h s t) = h"

fun stored_ts :: "stored \<Rightarrow> js_string option" where
  "stored_ts (Entry e) = slack_message_ts e"
| "stored_ts (Partial chars h s t) = None"

datatype exn = Error js_string

datatype errno = ENOENT | EACCES | EISDIR | EIO

record slack_response =
  ok :: bool
  ts :: js_string
  error :: js_string

datatype block = Header js_string | Divider | Section js_string | Context js_string

text \<open>
  What the run does to the outside world, in order: the calls of \<open>postNewIncident\<close> and
  \<open>updateIncidentMessage\<close> with their arguments and with what they returned (\<open>Inl\<close>: the
  error they threw), and the calls of \<open>mkdir\<close> and \<open>writeFile\<close> (with the content
  written to the state file).
\<close>

datatype effect =
    Send incident "exn + js_string option"
  | Edit incident js_string "exn + js_string"
  | Mkdir
  | WriteFile js_string

text \<open>
  Everything the run reads from outside. The two Slack methods, the clock and the file
  system are not code of the repository: their answers are parameters. The answers of
  Slack and of the clock may differ from one feed item to the next, so they depend on
  the index of the item that is being processed; the message sent (channel, text and
  blocks) is a function of the incident and the clock, so they take the incident.
  \<open>fetched_feed\<close> is the result of \<open>parseRssFeed(await fetchRssFeed())\<close>. \<open>JSON_parse\<close> gives
  the own properties of the object that \<open>JSON.parse\<close> returns, and \<open>None\<close> where it
  throws; \<open>JSON_stringify\<close> takes the own properties of the state object.
\<close>

record env =
  SLACK_BOT_TOKEN :: "js_string option"
  SLACK_CHANNEL_ID :: "js_string option"
  chat_postMessage :: "nat \<Rightarrow> incident \<Rightarrow> exn + slack_response"
  chat_update :: "nat \<Rightarrow> incident \<Rightarrow> js_string \<Rightarrow> exn + slack_response"
  toISOString_now :: "nat \<Rightarrow> js_string"
  sha256_hex :: "js_string \<Rightarrow> js_string"
  fetched_feed :: "exn + item list"
  readFile :: "errno + js_string"
  JSON_parse :: "js_string \<Rightarrow> store option"
  JSON_stringify :: "store \<Rightarrow> js_string"
  existsSync_cache :: bool
  mkdir :: "exn option"
  writeFile :: "js_string \<Rightarrow> exn option"

section \<open>Formatting\<close>

text \<open>
  \<open>formatIncidentBlocks\<close>, given the results \<open>cleanDescription\<close> of \<open>parseDescription\<close> and
  \<open>lastChecked\<close> of \<open>formatTimestamp\<close>.
\<close>

definition formatIncidentBlocks :: "js_string \<Rightarrow> js_string \<Rightarrow> incident \<Rightarrow> block list" where
  "formatIncidentBlocks cleanDescription lastChecked incident =
     [Header (lit '':clawd-down: '' @ title incident @ lit '' :clawd-down:''),
      Divider,
      Section (truncateText cleanDescription 2900),
      Divider,
      Context (lit ''<'' @ link incident @ lit ''|View on status page>  '' @ [0xC2, 0xB7] @
               lit ''  Last checked: '' @ lastChecked)]"

section \<open>State store\<close>

definition hashDescription :: "env \<Rightarrow> js_string \<Rightarrow> js_string" where
  "hashDescription env d = slice (sha256_hex env d) 0 16"

text \<open>\<open>loadState\<close> returns the own properties of the state object it loads or creates.\<close>

definition loadState :: "env \<Rightarrow> store" where
  "loadState env =
     (case readFile env of
        Inl e \<Rightarrow> []
      | Inr content \<Rightarrow> (case JSON_parse env content of None \<Rightarrow> [] | Some state \<Rightarrow> state))"

definition saveState :: "env \<Rightarrow> store \<Rightarrow> effect list \<times> (exn + unit)" where
  "saveState env state =
     (let content = JSON_stringify env state;
          write = (case writeFile env content of
                     Some e \<Rightarrow> ([WriteFile content], Inl e)
                   | None \<Rightarrow> ([WriteFile content], Inr ()))
      in if \<not> existsSync_cache env
         then (case mkdir env of
                 Some e \<Rightarrow> ([Mkdir], Inl e)
               | None \<Rightarrow> (Mkdir # fst write, snd write))
         else write)"

section \<open>Notifier\<close>

text \<open>JavaScript truthiness of a value that is a string or \<open>null\<close>/\<open>undefined\<close>.\<close>

fun truthy :: "js_string option \<Rightarrow> bool" where
  "truthy None = False"
| "truthy (Some s) = (s \<noteq> [])"

definition slack_configured :: "env \<Rightarrow> bool" where
  "slack_configured env \<longleftrightarrow> truthy (SLACK_BOT_TOKEN env) \<and> truthy (SLACK_CHANNEL_ID env)"

definition postNewIncident :: "env \<Rightarrow> nat \<Rightarrow> incident \<Rightarrow> exn + js_string option" where
  "postNewIncident env k incident =
     (if \<not> slack_configured env then Inr None
      else case chat_postMessage env k incident of
             Inl e \<Rightarrow> Inl e
           | Inr result \<Rightarrow>
               if \<not> ok result then Inl (Error (lit ''Failed to post message: '' @ error result))
               else Inr (Some (ts result)))"

definition updateIncidentMessage :: "env \<Rightarrow> nat \<Rightarrow> incident \<Rightarrow> js_string \<Rightarrow> exn + js_string" where
  "updateIncidentMessage env k incident messageTs =
     (if \<not> slack_configured env then Inr messageTs
      else case chat_update env k incident messageTs of
             Inl e \<Rightarrow> Inl e
           | Inr result \<Rightarrow>
               if \<not> ok result then Inl (Error (lit ''Failed to update message: '' @ error result))
               else Inr (ts result))"

section \<open>Reconciliation\<close>

text \<open>
  The body of the loop of \<open>processIncidents\<close> for the feed item of index \<open>k\<close>, on the state
  object with own properties \<open>state\<close> and prototype \<open>proto\<close>: the calls it makes, and
  either the error that aborts the run or the new state object and \<open>newCount\<close>. Only an
  entry has a field \<open>slack_message_ts\<close>; for every other value of \<open>existing\<close> it is
  \<open>undefined\<close>.
\<close>

definition process_item ::
  "env \<Rightarrow> bool \<Rightarrow> nat \<Rightarrow> item \<Rightarrow> state_object \<Rightarrow> nat \<Rightarrow>
   effect list \<times> (exn + state_object \<times> nat)" where
  "process_item env isFirstRun k it obj newCount =
     (let state = fst obj;
          proto = snd obj;
          incidentId = guid it;
          descriptionHash = hashDescription env (description it);
          currentStatus = extractCurrentStatus (description it);
          existing = get_property state proto incidentId
      in if \<not> truthy_val existing then
           (if isFirstRun \<and> newCount > 0 then
              ([], Inr (set_property state proto incidentId (Entry
                  \<lparr>entry_title = title it, description_hash = descriptionHash,
                   entry_status = currentStatus, first_seen = pubDate it,
                   last_updated = toISOString_now env k, slack_message_ts = None,
                   entry_link = link it\<rparr>), newCount))
            else
              (let incident = spread_item it currentStatus (pubDate it);
                   posted = postNewIncident env k incident
               in case posted of
                    Inl e \<Rightarrow> ([Send incident posted], Inl e)
                  | Inr messageTs \<Rightarrow>
                      ([Send incident posted], Inr (set_property state proto incidentId (Entry
                         \<lparr>entry_title = title it, description_hash = descriptionHash,
                          entry_status = currentStatus, first_seen = pubDate it,
                          last_updated = toISOString_now env k, slack_message_ts = messageTs,
                          entry_link = link it\<rparr>), newCount + 1))))
         else if existing_description_hash existing \<noteq> StringVal descriptionHash then
           (let updated = updated_object existing descriptionHash currentStatus
                            (toISOString_now env k);
                silent = ([], Inr (set_property state proto incidentId updated, newCount))
            in case existing of
                 ObjectVal (Entry e) \<Rightarrow>
                   (case slack_message_ts e of
                      Some messageTs \<Rightarrow>
                        if messageTs \<noteq> [] then
                          (let incident = spread_item it currentStatus (first_seen e);
                               edited = updateIncidentMessage env k incident messageTs
                           in case edited of
                                Inl err \<Rightarrow> ([Edit incident messageTs edited], Inl err)
                              | Inr returned \<Rightarrow>
                                  ([Edit incident messageTs edited],
                                   Inr (set_property state proto incidentId updated, newCount)))
                        else silent
                    | None \<Rightarrow> silent)
               | _ \<Rightarrow> silent)
         else ([], Inr (obj, newCount)))"

text \<open>The loop over the feed items.\<close>

fun reconcile_loop ::
  "env \<Rightarrow> bool \<Rightarrow> nat \<Rightarrow> item list \<Rightarrow> state_object \<Rightarrow> nat \<Rightarrow>
   effect list \<times> (exn + state_object)" where
  "reconcile_loop env isFirstRun k [] obj newCount = ([], Inr obj)"
| "reconcile_loop env isFirstRun k (it # feedItems) obj newCount =
     (case process_item env isFirstRun k it obj newCount of
        (calls, Inl e) \<Rightarrow> (calls, Inl e)
      | (calls, Inr (obj', newCount')) \<Rightarrow>
          (case reconcile_loop env isFirstRun (Suc k) feedItems obj' newCount' of
             (calls', r) \<Rightarrow> (calls @ calls', r)))"

text \<open>
  The loop on a state object as \<open>loadState\<close> returns it, whose prototype is
  \<open>Object.prototype\<close>; the result is the own properties of the state object at the end,
  which is what \<open>saveState\<close> writes.
\<close>

definition reconcile ::
  "env \<Rightarrow> bool \<Rightarrow> nat \<Rightarrow> item list \<Rightarrow> store \<Rightarrow> nat \<Rightarrow> effect list \<times> (exn + store)" where
  "reconcile env isFirstRun k feedItems state newCount =
     (case reconcile_loop env isFirstRun k feedItems (state, None) newCount of
        (calls, Inl e) \<Rightarrow> (calls, Inl e)
      | (calls, Inr obj) \<Rightarrow> (calls, Inr (fst obj)))"

definition processIncidents :: "env \<Rightarrow> effect list \<times> (exn + unit)" where
  "processIncidents env =
     (case fetched_feed env of
        Inl e \<Rightarrow> ([], Inl e)
      | Inr feedItems \<Rightarrow>
          (let state = loadState env;
               isFirstRun = (length (map fst state) = 0)
           in case reconcile env isFirstRun 0 feedItems state 0 of
                (calls, Inl e) \<Rightarrow> (calls, Inl e)
              | (calls, Inr state') \<Rightarrow>
                  (case saveState env state' of (writes, r) \<Rightarrow> (calls @ writes, r))))"

text \<open>\<open>main\<close>: the effects of the run and the exit code of the process.\<close>

definition main :: "env \<Rightarrow> effect list \<times> nat" where
  "main env =
     (case processIncidents env of
        (effects, Inl e) \<Rightarrow> (effects, 1)
      | (effects, Inr u) \<Rightarrow> (effects, 0))"

section \<open>Observing a run\<close>

text \<open>
  The calls of the Notifier among the effects, the incident a call is about, and the
  calls that failed.
\<close>

fun is_notifier_call :: "effect \<Rightarrow> bool" where
  "is_notifier_call (Send incident r) = True"
| "is_notifier_call (Edit incident messageTs r) = True"
| "is_notifier_call Mkdir = False"
| "is_notifier_call (WriteFile content) = False"

fun call_guid :: "effect \<Rightarrow> js_string option" where
  "call_guid (Send incident r) = Some (guid incident)"
| "call_guid (Edit incident messageTs r) = Some (guid incident)"
| "call_guid Mkdir = None"
| "call_guid (WriteFile content) = None"

fun failed_call :: "effect \<Rightarrow> bool" where
  "failed_call (Send incident (Inl e)) = True"
| "failed_call (Edit incident messageTs (Inl e)) = True"
| "failed_call c = False"

fun is_write :: "effect \<Rightarrow> bool" where
  "is_write (WriteFile content) = True"
| "is_write c = False"

text \<open>
  A sequence of runs, each with its own environment and feed. A run that aborts writes
  nothing, so the next run starts from the state of the last run that reached
  \<open>saveState\<close>; the state file is taken to decode to the state that was saved. The
  result is every Notifier call of the runs, in order, and the last state.
\<close>

fun successive_runs :: "(env \<times> item list) list \<Rightarrow> store \<Rightarrow> effect list \<times> store" where
  "successive_runs [] state = ([], state)"
| "successive_runs ((env, feedItems) # runs) state =
     (case reconcile env (length (map fst state) = 0) 0 feedItems state 0 of
        (calls, Inl e) \<Rightarrow>
          (case successive_runs runs state of (calls', final) \<Rightarrow> (calls @ calls', final))
      | (calls, Inr state') \<Rightarrow>
          (case successive_runs runs state' of (calls', final) \<Rightarrow> (calls @ calls', final)))"

text \<open>The identifier has no own property yet, or an entry that was never posted.\<close>

definition null_or_absent :: "store \<Rightarrow> js_string \<Rightarrow> bool" where
  "null_or_absent st key \<longleftrightarrow>
     map_of st key = None \<or> (\<exists>e. map_of st key = Some (Entry e) \<and> slack_message_ts e = None)"

text \<open>
  What a later state keeps of a stored object: its message identifier and, of an entry,
  that it is an entry, with its title, first-seen date and link.
\<close>

definition keeps :: "stored \<Rightarrow> stored \<Rightarrow> bool" where
  "keeps v v' \<longleftrightarrow>
     stored_ts v' = stored_ts v \<and>
     (\<forall>e. v = Entry e \<longrightarrow>
        (\<exists>e'. v' = Entry e' \<and> entry_title e' = entry_title e \<and>
           first_seen e' = first_seen e \<and> entry_link e' = entry_link e))"

text \<open>No item of the feed is named like a property of \<open>Object.prototype\<close>.\<close>

definition ordinary_guids :: "item list \<Rightarrow> bool" where
  "ordinary_guids feedItems \<longleftrightarrow> (\<forall>it\<in>set feedItems. guid it \<notin> set Object_prototype_names)"

section \<open>Sample data\<close>

text \<open>
  Concrete inputs for the examples. In \<open>sample_env\<close> the identity stands in for SHA-256,
  Slack answers every call with the given response, and the JSON codec knows one state,
  \<open>saved\<close>, which it writes as \<open>{saved}\<close>.
\<close>

definition sample_item :: "string \<Rightarrow> string \<Rightarrow> item" where
  "sample_item g d =
     \<lparr>guid = lit g, title = lit ''Elevated errors'', description = lit d,
      pubDate = lit ''14 Jan 2026'', link = lit ''https://status.claude.com''\<rparr>"

definition sample_entry :: "string \<Rightarrow> js_string option \<Rightarrow> entry" where
  "sample_entry h messageTs =
     \<lparr>entry_title = lit ''Elevated errors'', description_hash = lit h,
      entry_status = Investigating, first_seen = lit ''14 Jan 2026'',
      last_updated = lit ''2026-01-14T14:00:00.000Z'', slack_message_ts = messageTs,
      entry_link = lit ''https://status.claude.com''\<rparr>"

definition slack_ok :: "string \<Rightarrow> exn + slack_response" where
  "slack_ok t = Inr \<lparr>ok = True, ts = lit t, error = []\<rparr>"

definition slack_not_ok :: "string \<Rightarrow> exn + slack_response" where
  "slack_not_ok e = Inr \<lparr>ok = False, ts = [], error = lit e\<rparr>"

definition sample_env ::
  "js_string option \<Rightarrow> (exn + slack_response) \<Rightarrow> (exn + slack_response) \<Rightarrow> item list \<Rightarrow>
   (errno + js_string) \<Rightarrow> store \<Rightarrow> env" where
  "sample_env token posted edited feedItems file saved =
     \<lparr>SLACK_BOT_TOKEN = token,
      SLACK_CHANNEL_ID = Some (lit ''C0123''),
      chat_postMessage = (\<lambda>k incident. posted),
      chat_update = (\<lambda>k incident messageTs. edited),
      toISOString_now = (\<lambda>k. lit ''2026-01-14T14:20:00.000Z''),
      sha256_hex = (\<lambda>d. d),
      fetched_feed = Inr feedItems,
      readFile = file,
      JSON_parse = (\<lambda>content. if content = lit ''{saved}'' then Some saved else None),
      JSON_stringify = (\<lambda>state. if state = saved then lit ''{saved}'' else lit ''{other}''),
      existsSync_cache = True,
      mkdir = None,
      writeFile = (\<lambda>content. None)\<rparr>"

text \<open>
  The scenarios of the examples: a token, a state with one entry for the incident \<open>a\<close>
  (posted as message \<open>T1\<close>, posted with an empty identifier, or never posted), the feed
  item of \<open>a\<close> with a new narrative, and environments around them.
\<close>

definition token :: "js_string option" where
  "token = Some (lit ''xoxb-1'')"

definition item_a :: item where
  "item_a = sample_item ''a'' ''Resolved''"

definition posted_state :: store where
  "posted_state = [(lit ''a'', Entry (sample_entry ''old'' (Some (lit ''T1''))))]"

definition empty_ts_state :: store where
  "empty_ts_state = [(lit ''a'', Entry (sample_entry ''old'' (Some [])))]"

definition suppressed_state :: store where
  "suppressed_state = [(lit ''a'', Entry (sample_entry ''old'' None))]"

definition current_state :: store where
  "current_state = [(lit ''a'', Entry (sample_entry ''Resolved'' (Some (lit ''T1''))))]"

definition first_run_env :: env where
  "first_run_env =
     sample_env token (slack_ok ''T1'') (slack_ok ''T1'')
       [item_a, sample_item ''b'' ''Monitoring'', sample_item ''c'' ''Investigating'']
       (Inl ENOENT) []"

definition edit_env :: env where
  "edit_env =
     sample_env token (slack_ok ''T9'') (slack_ok ''T2'') [item_a] (Inr (lit ''{saved}'')) posted_state"

definition unchanged_env :: env where
  "unchanged_env =
     sample_env token (slack_ok ''T9'') (slack_ok ''T2'') [item_a] (Inr (lit ''{saved}'')) current_state"

definition rejecting_env :: env where
  "rejecting_env =
     sample_env token (slack_not_ok ''channel_not_found'') (slack_ok ''T2'') [item_a] (Inl ENOENT) []"

definition unreadable_env :: env where
  "unreadable_env =
     sample_env token (slack_ok ''T9'') (slack_ok ''T2'') [item_a] (Inl EACCES) current_state"

definition corrupt_env :: env where
  "corrupt_env =
     sample_env token (slack_ok ''T9'') (slack_ok ''T2'') [item_a] (Inr (lit ''{sav'')) current_state"

definition dry_run_env :: env where
  "dry_run_env =
     sample_env None (slack_ok ''T9'') (slack_ok ''T2'') [item_a] (Inl ENOENT) []"

text \<open>
  Two first runs on feeds with an identifier that names a property of
  \<open>Object.prototype\<close>: \<open>constructor\<close> before an ordinary item, with Slack configured, and
  \<open>__proto__\<close> alone, without a token.
\<close>

definition constructor_first_env :: env where
  "constructor_first_env =
     sample_env token (slack_ok ''T1'') (slack_ok ''T1'')
       [sample_item ''constructor'' ''Resolved'', sample_item ''b'' ''Monitoring'']
       (Inl ENOENT) []"

definition proto_dry_run_env :: env where
  "proto_dry_run_env =
     sample_env None (slack_ok ''T9'') (slack_ok ''T2'') [sample_item ''__proto__'' ''Resolved'']
       (Inl ENOENT) []"

section \<open>Properties of the status extractor\<close>

lemma exec_from_shift:
  "exec_from re prev t k = map_option (\<lambda>i. i + k) (exec_from re prev t 0)"
proof (induction t arbitrary: prev k)
  case Nil
  show ?case by simp
next
  case (Cons c cs)
  have "exec_from re (Some c) cs (Suc k) = map_option (\<lambda>i. i + Suc k) (exec_from re (Some c) cs 0)"
    by (rule Cons.IH)
  moreover have "exec_from re (Some c) cs (Suc 0) = map_option (\<lambda>i. i + Suc 0) (exec_from re (Some c) cs 0)"
    by (rule Cons.IH)
  ultimately show ?case
    by (simp add: option.map_comp comp_def)
qed

lemma exec_from_0_Some_iff:
  "exec_from re prev t 0 = Some i \<longleftrightarrow>
     i \<le> length t \<and> match_here re (last_opt prev (take i t)) (drop i t) \<and>
     (\<forall>j<i. \<not> match_here re (last_opt prev (take j t)) (drop j t))"
proof (induction t arbitrary: prev i)
  case Nil
  show ?case by auto
next
  case (Cons c cs)
  show ?case
  proof (cases "match_here re prev (c # cs)")
    case True
    have "i = 0" if "\<forall>j<i. \<not> match_here re (last_opt prev (take j (c # cs))) (drop j (c # cs))"
    proof (rule ccontr)
      assume "i \<noteq> 0"
      then have "0 < i" by simp
      with that have "\<not> match_here re (last_opt prev (take 0 (c # cs))) (drop 0 (c # cs))" by blast
      with True show False by simp
    qed
    with True show ?thesis by auto
  next
    case False
    have e: "exec_from re prev (c # cs) 0 = map_option Suc (exec_from re (Some c) cs 0)"
      using False exec_from_shift[of re "Some c" cs "Suc 0"] by simp
    show ?thesis
    proof (cases i)
      case 0
      with False e show ?thesis by auto
    next
      case (Suc m)
      have "(\<forall>j<Suc m. \<not> match_here re (last_opt prev (take j (c # cs))) (drop j (c # cs))) \<longleftrightarrow>
            (\<forall>j<m. \<not> match_here re (last_opt (Some c) (take j cs)) (drop j cs))"
        using False by (auto simp: less_Suc_eq_0_disj)
      then show ?thesis
        unfolding e Suc using Cons.IH[of "Some c" m] by auto
    qed
  qed
qed

text \<open>\<open>exec\<close> returns the index of the leftmost occurrence, and \<open>null\<close> when there is none.\<close>

lemma regex_exec_Some_iff:
  "regex_exec re s = Some i \<longleftrightarrow> occurs_at re s i \<and> (\<forall>j<i. \<not> occurs_at re s j)"
  unfolding regex_exec_def occurs_at_def exec_from_0_Some_iff by auto

lemma regex_exec_None_iff:
  "regex_exec re s = None \<longleftrightarrow> (\<forall>i. \<not> occurs_at re s i)"
proof
  assume n: "regex_exec re s = None"
  show "\<forall>i. \<not> occurs_at re s i"
  proof (intro allI notI)
    fix i assume o: "occurs_at re s i"
    define m where "m = (LEAST j. occurs_at re s j)"
    have "occurs_at re s m" unfolding m_def using o by (rule LeastI)
    moreover have "\<forall>j<m. \<not> occurs_at re s j" unfolding m_def using not_less_Least by blast
    ultimately have "regex_exec re s = Some m" by (simp add: regex_exec_Some_iff)
    with n show False by simp
  qed
next
  assume "\<forall>i. \<not> occurs_at re s i"
  then show "regex_exec re s = None"
    by (cases "regex_exec re s") (auto simp: regex_exec_Some_iff)
qed

text \<open>The loop keeps \<open>firstMatch\<close> when no pattern matches before its position.\<close>

lemma foldl_check_unchanged:
  "(\<And>p i. p \<in> set ps \<Longrightarrow> regex_exec (fst p) d = Some i \<Longrightarrow> position fm \<le> enat i) \<Longrightarrow>
   foldl (check_pattern d) fm ps = fm"
proof (induction ps arbitrary: fm)
  case Nil
  show ?case by simp
next
  case (Cons p ps)
  have "check_pattern d fm p = fm"
    using Cons.prems[of p] by (auto simp: check_pattern_def split: option.splits)
  moreover have "foldl (check_pattern d) fm ps = fm"
    by (rule Cons.IH) (rule Cons.prems, simp_all)
  ultimately show ?case by simp
qed

text \<open>
  The loop ends with the pattern whose match is leftmost, and among patterns that match
  at the same index with the one checked first.
\<close>

lemma foldl_check_earliest:
  assumes "k < length ps" and "regex_exec (fst (ps ! k)) d = Some i" and "enat i < position fm"
    and "\<And>j i'. j < length ps \<Longrightarrow> regex_exec (fst (ps ! j)) d = Some i' \<Longrightarrow>
           i < i' \<or> (i = i' \<and> k \<le> j)"
  shows "foldl (check_pattern d) fm ps = \<lparr>position = enat i, match_status = snd (ps ! k)\<rparr>"
  using assms
proof (induction ps arbitrary: fm k)
  case Nil
  then show ?case by simp
next
  case (Cons p ps)
  show ?case
  proof (cases k)
    case 0
    with Cons.prems have c: "check_pattern d fm p = \<lparr>position = enat i, match_status = snd p\<rparr>"
      by (simp add: check_pattern_def)
    have "foldl (check_pattern d) \<lparr>position = enat i, match_status = snd p\<rparr> ps =
          \<lparr>position = enat i, match_status = snd p\<rparr>"
    proof (rule foldl_check_unchanged)
      fix q i' assume q: "q \<in> set ps" "regex_exec (fst q) d = Some i'"
      then obtain j where j: "j < length ps" "ps ! j = q" by (auto simp: in_set_conv_nth)
      with Cons.prems(4)[of "Suc j" i'] q have "i \<le> i'" by auto
      then show "position \<lparr>position = enat i, match_status = snd p\<rparr> \<le> enat i'" by simp
    qed
    with c 0 show ?thesis by simp
  next
    case (Suc k')
    have p: "enat i < position (check_pattern d fm p)"
    proof (cases "regex_exec (fst p) d")
      case None
      with Cons.prems(3) show ?thesis by (simp add: check_pattern_def)
    next
      case (Some i')
      with Cons.prems(4)[of 0 i'] Suc have "i < i'" by auto
      with Some Cons.prems(3) show ?thesis by (simp add: check_pattern_def)
    qed
    have "foldl (check_pattern d) (check_pattern d fm p) ps =
          \<lparr>position = enat i, match_status = snd (ps ! k')\<rparr>"
    proof (rule Cons.IH[OF _ _ p])
      show "k' < length ps" using Cons.prems(1) Suc by simp
      show "regex_exec (fst (ps ! k')) d = Some i" using Cons.prems(2) Suc by simp
      fix j i' assume "j < length ps" "regex_exec (fst (ps ! j)) d = Some i'"
      with Cons.prems(4)[of "Suc j" i'] Suc show "i < i' \<or> i = i' \<and> k' \<le> j" by auto
    qed
    with Suc show ?thesis by simp
  qed
qed

lemma extract_unknown:
  assumes "\<And>k i. \<not> keyword_at d k i"
  shows "extractCurrentStatus d = Unknown"
proof -
  have "foldl (check_pattern d) \<lparr>position = \<infinity>, match_status = Unknown\<rparr> statusPatterns =
        \<lparr>position = \<infinity>, match_status = Unknown\<rparr>"
  proof (rule foldl_check_unchanged)
    fix p i assume p: "p \<in> set statusPatterns" "regex_exec (fst p) d = Some i"
    then obtain k where "k < length statusPatterns" "statusPatterns ! k = p"
      by (auto simp: in_set_conv_nth)
    with p have "keyword_at d k i" by (simp add: keyword_at_def regex_exec_Some_iff)
    with assms show "position \<lparr>position = \<infinity>, match_status = Unknown\<rparr> \<le> enat i" by simp
  qed
  then show ?thesis by (simp add: extractCurrentStatus_def)
qed

lemma extract_earliest:
  assumes k: "keyword_at d k i"
    and least: "\<And>j i'. keyword_at d j i' \<Longrightarrow> i < i' \<or> (i = i' \<and> k \<le> j)"
  shows "extractCurrentStatus d = snd (statusPatterns ! k)"
proof -
  have kl: "k < length statusPatterns" and occ: "occurs_at (fst (statusPatterns ! k)) d i"
    using k by (simp_all add: keyword_at_def)
  have "\<not> occurs_at (fst (statusPatterns ! k)) d j" if "j < i" for j
  proof
    assume "occurs_at (fst (statusPatterns ! k)) d j"
    with kl have "keyword_at d k j" by (simp add: keyword_at_def)
    from least[OF this] that show False by simp
  qed
  with occ have ex: "regex_exec (fst (statusPatterns ! k)) d = Some i"
    by (simp add: regex_exec_Some_iff)
  have "foldl (check_pattern d) \<lparr>position = \<infinity>, match_status = Unknown\<rparr> statusPatterns =
        \<lparr>position = enat i, match_status = snd (statusPatterns ! k)\<rparr>"
  proof (rule foldl_check_earliest[OF kl ex])
    show "enat i < position \<lparr>position = \<infinity>, match_status = Unknown\<rparr>" by simp
    fix j i' assume "j < length statusPatterns" "regex_exec (fst (statusPatterns ! j)) d = Some i'"
    then have "keyword_at d j i'" by (simp add: keyword_at_def regex_exec_Some_iff)
    then show "i < i' \<or> i = i' \<and> k \<le> j" by (rule least)
  qed
  then show ?thesis by (simp add: extractCurrentStatus_def)
qed

lemma ci_prefix_self: "ci_prefix p (p @ t)"
  by (induction p) auto

text \<open>
  Where the text \<open><strong>Investigating</strong>\<close> stands, none of the three patterns
  checked before its own matches.
\<close>

lemma strong_investigating_only:
  "keyword_at (pre @ lit ''<strong>Investigating</strong>'' @ rest) j (length pre) \<Longrightarrow> 3 \<le> j"
  apply (rule ccontr)
  apply (subgoal_tac "j = 0 \<or> j = 1 \<or> j = 2")
   apply (auto simp: keyword_at_def occurs_at_def statusPatterns_def lit_def canonicalize_def)
  done

lemma extract_investigating_first:
  assumes d: "d = pre @ lit ''<strong>Investigating</strong>'' @ mid @ lit ''<strong>Resolved</strong>'' @ post"
    and none: "\<And>j i. i < length pre \<Longrightarrow> \<not> keyword_at d j i"
  shows "extractCurrentStatus d = Investigating"
proof -
  have "keyword_at d 3 (length pre)"
    by (simp add: keyword_at_def occurs_at_def statusPatterns_def d ci_prefix_self)
  moreover have "length pre < i' \<or> (length pre = i' \<and> 3 \<le> j)" if "keyword_at d j i'" for j i'
  proof (cases "i' < length pre")
    case True
    with none that show ?thesis by blast
  next
    case False
    show ?thesis
    proof (cases "i' = length pre")
      case True
      with that strong_investigating_only[of pre _ j] d show ?thesis by simp
    next
      case False
      with \<open>\<not> i' < length pre\<close> show ?thesis by simp
    qed
  qed
  ultimately have "extractCurrentStatus d = snd (statusPatterns ! 3)"
    by (rule extract_earliest)
  then show ?thesis by (simp add: statusPatterns_def)
qed

text \<open>
  A way to check on a concrete narrative that no pattern occurs before an index: every
  pattern's leftmost match, if it has one, is at that index or later.
\<close>

lemma no_keyword_before:
  assumes "\<forall>p\<in>set statusPatterns. case regex_exec (fst p) d of None \<Rightarrow> True | Some m \<Rightarrow> n \<le> m"
    and "i < n"
  shows "\<not> keyword_at d j i"
proof
  assume k: "keyword_at d j i"
  then have j: "j < length statusPatterns" and o: "occurs_at (fst (statusPatterns ! j)) d i"
    by (simp_all add: keyword_at_def)
  from j have "statusPatterns ! j \<in> set statusPatterns" by simp
  with assms(1) have c: "case regex_exec (fst (statusPatterns ! j)) d of None \<Rightarrow> True | Some m \<Rightarrow> n \<le> m"
    by blast
  show False
  proof (cases "regex_exec (fst (statusPatterns ! j)) d")
    case None
    with o show False by (simp add: regex_exec_None_iff)
  next
    case (Some m)
    with c have "n \<le> m" by simp
    with \<open>i < n\<close> have "i < m" by simp
    with Some o show False by (simp add: regex_exec_Some_iff)
  qed
qed

text \<open>
  Claim C4, as the code has it. The status returned is that of the pattern with the
  leftmost occurrence in the narrative, all eight patterns competing on position alone:
  a keyword without emphasis markup that stands further left wins over one with markup.
  Where two patterns occur at the same leftmost index, the one earlier in
  \<open>statusPatterns\<close> wins. Without any occurrence the status is \<open>Unknown\<close>. A narrative
  in which \<open><strong>Investigating</strong>\<close> precedes \<open><strong>Resolved</strong>\<close> yields
  \<open>Investigating\<close> provided that no status keyword, with or without markup, occurs
  before that \<open><strong>Investigating</strong>\<close>.
\<close>

theorem extractCurrentStatus_leftmost_keyword:
  "((\<forall>k i. \<not> keyword_at d k i) \<longrightarrow> extractCurrentStatus d = Unknown) \<and>
   (\<forall>k i. keyword_at d k i \<and> (\<forall>j i'. keyword_at d j i' \<longrightarrow> i < i' \<or> (i = i' \<and> k \<le> j)) \<longrightarrow>
      extractCurrentStatus d = snd (statusPatterns ! k)) \<and>
   (\<forall>pre mid post.
      d = pre @ lit ''<strong>Investigating</strong>'' @ mid @ lit ''<strong>Resolved</strong>'' @ post \<and>
      (\<forall>j i. i < length pre \<longrightarrow> \<not> keyword_at d j i) \<longrightarrow>
      extractCurrentStatus d = Investigating)"
proof (intro conjI allI impI)
  assume "\<forall>k i. \<not> keyword_at d k i"
  then show "extractCurrentStatus d = Unknown" by (intro extract_unknown) simp
next
  fix k i
  assume a: "keyword_at d k i \<and> (\<forall>j i'. keyword_at d j i' \<longrightarrow> i < i' \<or> (i = i' \<and> k \<le> j))"
  show "extractCurrentStatus d = snd (statusPatterns ! k)"
  proof (rule extract_earliest)
    show "keyword_at d k i" using a by simp
    fix j i' assume "keyword_at d j i'"
    with a show "i < i' \<or> i = i' \<and> k \<le> j" by blast
  qed
next
  fix pre mid post
  assume a: "d = pre @ lit ''<strong>Investigating</strong>'' @ mid @ lit ''<strong>Resolved</strong>'' @ post \<and>
      (\<forall>j i. i < length pre \<longrightarrow> \<not> keyword_at d j i)"
  show "extractCurrentStatus d = Investigating"
  proof (rule extract_investigating_first)
    show "d = pre @ lit ''<strong>Investigating</strong>'' @ mid @ lit ''<strong>Resolved</strong>'' @ post"
      using a by simp
    fix j i assume "i < length pre"
    with a show "\<not> keyword_at d j i" by blast
  qed
qed

theorem extractCurrentStatus_leftmost_keyword_witness:
  "(\<forall>k i. \<not> keyword_at (lit ''All systems operational'') k i) \<and>
   extractCurrentStatus (lit ''All systems operational'') = Unknown \<and>
   keyword_at
     (lit ''<p>'' @ lit ''<strong>Investigating</strong>'' @ lit '' - x</p><p>'' @
      lit ''<strong>Resolved</strong>'' @ lit '' - y</p>'') 3 3 \<and>
   \<not> (\<exists>j i. i < length (lit ''<p>'') \<and>
      keyword_at
        (lit ''<p>'' @ lit ''<strong>Investigating</strong>'' @ lit '' - x</p><p>'' @
         lit ''<strong>Resolved</strong>'' @ lit '' - y</p>'') j i) \<and>
   extractCurrentStatus
     (lit ''<p>'' @ lit ''<strong>Investigating</strong>'' @ lit '' - x</p><p>'' @
      lit ''<strong>Resolved</strong>'' @ lit '' - y</p>'') = Investigating \<and>
   snd (statusPatterns ! 3) = Investigating"
proof -
  define d0 where "d0 = lit ''<p>'' @ lit ''<strong>Investigating</strong>'' @ lit '' - x</p><p>'' @
      lit ''<strong>Resolved</strong>'' @ lit '' - y</p>''"
  define d1 where "d1 = lit ''All systems operational''"
  have "\<forall>p\<in>set statusPatterns. case regex_exec (fst p) d1 of None \<Rightarrow> True | Some m \<Rightarrow> 24 \<le> m"
    unfolding d1_def by code_simp
  then have n1: "\<not> keyword_at d1 k i" if "i < 24" for k i
    using that by (rule no_keyword_before)
  have "length d1 = 23" by (simp add: d1_def lit_def)
  have h1: "\<forall>k i. \<not> keyword_at d1 k i"
  proof (intro allI notI)
    fix k i assume a: "keyword_at d1 k i"
    then have "i \<le> length d1" by (simp add: keyword_at_def occurs_at_def)
    with \<open>length d1 = 23\<close> have "i < 24" by simp
    from n1[OF this] a show False by simp
  qed
  have "\<forall>p\<in>set statusPatterns. case regex_exec (fst p) d0 of None \<Rightarrow> True | Some m \<Rightarrow> 3 \<le> m"
    unfolding d0_def by code_simp
  then have n0: "\<not> keyword_at d0 j i" if "i < 3" for j i
    using that by (rule no_keyword_before)
  have l: "length (lit ''<p>'') = 3" by (simp add: lit_def)
  have k3: "keyword_at d0 3 3"
    unfolding d0_def keyword_at_def occurs_at_def statusPatterns_def
    by (simp add: lit_def canonicalize_def)
  have h3: "\<forall>j i. i < length (lit ''<p>'') \<longrightarrow> \<not> keyword_at d0 j i"
    using n0 l by simp
  have r1: "extractCurrentStatus d1 = Unknown"
    using extractCurrentStatus_leftmost_keyword[of d1] h1 by blast
  have r3: "extractCurrentStatus d0 = Investigating"
    using extractCurrentStatus_leftmost_keyword[of d0] h3 d0_def by blast
  have "snd (statusPatterns ! 3) = Investigating" by (simp add: statusPatterns_def)
  moreover from h3 have "\<not> (\<exists>j i. i < length (lit ''<p>'') \<and> keyword_at d0 j i)" by blast
  ultimately show ?thesis using h1 r1 k3 r3 unfolding d0_def d1_def by blast
qed

theorem extractCurrentStatus_earlier_plain_keyword_counterexample:
  "extractCurrentStatus
     (lit ''Not yet resolved. '' @ lit ''<strong>Investigating</strong>'' @ lit '' - looking into it. '' @
      lit ''<strong>Resolved</strong>'' @ lit '' - fixed.'') = Resolved"
  by code_simp

section \<open>Properties of the message body\<close>

lemma slice_0: "0 \<le> e \<Longrightarrow> slice s 0 e = take (nat e) s"
  by (simp add: slice_def slice_index_def Let_def min_def)

lemma length_lit: "length (lit s) = length s"
  by (simp add: lit_def)

text \<open>
  Claim C9. The text of the section block is \<open>truncateText(cleanDescription, 2900)\<close>. A
  text of at most 2900 code units is returned as it is; of a longer one the first 2880
  code units are kept and \<open>\n\n_...and more_\<close> is appended; the result never has more than
  2900 code units.
\<close>

theorem truncateText_2900:
  "formatIncidentBlocks t lastChecked incident ! 2 = Section (truncateText t 2900) \<and>
   (length t \<le> 2900 \<longrightarrow> truncateText t 2900 = t) \<and>
   (2900 < length t \<longrightarrow>
      truncateText t 2900 = take 2880 t @ [0x0A, 0x0A] @ lit ''_...and more_'') \<and>
   length (truncateText t 2900) \<le> 2900"
  by (auto simp: formatIncidentBlocks_def truncateText_def slice_0 length_lit)

theorem truncateText_2900_witness:
  "length (lit ''Resolved - fixed.'') \<le> 2900 \<and>
   truncateText (lit ''Resolved - fixed.'') 2900 = lit ''Resolved - fixed.'' \<and>
   2900 < length (replicate 3000 (0x41 :: code_unit)) \<and>
   truncateText (replicate 3000 0x41) 2900 =
     replicate 2880 0x41 @ [0x0A, 0x0A] @ lit ''_...and more_''"
proof -
  have a: "length (lit ''Resolved - fixed.'') \<le> 2900" by (simp add: length_lit)
  have b: "2900 < length (replicate 3000 (0x41 :: code_unit))" by simp
  from a truncateText_2900[of "lit ''Resolved - fixed.''"]
  have "truncateText (lit ''Resolved - fixed.'') 2900 = lit ''Resolved - fixed.''" by blast
  moreover from b truncateText_2900[of "replicate 3000 0x41"]
  have "truncateText (replicate 3000 0x41) 2900 =
     take 2880 (replicate 3000 (0x41 :: code_unit)) @ [0x0A, 0x0A] @ lit ''_...and more_''" by blast
  ultimately show ?thesis using a b by simp
qed


section \<open>Properties of the reconciliation\<close>

subsection \<open>Reading and writing the state object\<close>

lemma proto_name: "lit ''__proto__'' \<in> set Object_prototype_names"
  by (simp add: Object_prototype_names_def)

text \<open>An own property is found first, whatever its name.\<close>

lemma get_property_own:
  "map_of state key = Some v \<Longrightarrow> get_property state proto key = ObjectVal v"
  by (simp add: get_property_def)

text \<open>
  Under the prototype \<open>Object.prototype\<close>, a name that it does not define is found only
  as an own property.
\<close>

lemma get_property_ordinary:
  assumes "map_of state key = None" "key \<notin> set Object_prototype_names"
  shows "get_property state None key = Undefined"
proof -
  have "key \<noteq> lit ''__proto__''" using assms(2) proto_name by auto
  with assms show ?thesis by (simp add: get_property_def)
qed

lemma set_property_own:
  "map_of state key = Some v' \<Longrightarrow> set_property state proto key v = (AList.update key v state, proto)"
  by (simp add: set_property_def)

lemma set_property_ordinary:
  assumes "key \<notin> set Object_prototype_names"
  shows "set_property state proto key v = (AList.update key v state, proto)"
proof -
  have "key \<noteq> lit ''__proto__''" using assms proto_name by auto
  then show ?thesis by (simp add: set_property_def)
qed

lemma set_property_cases:
  "set_property state proto key v = (AList.update key v state, proto) \<or>
   set_property state proto key v = (state, Some v) \<and> map_of state key = None"
  by (auto simp: set_property_def)

text \<open>An assignment leaves the other own properties alone and removes none.\<close>

lemma set_property_other:
  "key' \<noteq> key \<Longrightarrow> map_of (fst (set_property state proto key v)) key' = map_of state key'"
  by (simp add: set_property_def update_conv')

lemma set_property_same:
  "map_of state key = Some v' \<Longrightarrow> map_of (fst (set_property state proto key v)) key = Some v"
  by (simp add: set_property_def update_conv')

lemma keys_update: "fst ` set (AList.update key v state) = insert key (fst ` set state)"
  by (induction state) auto

lemma keys_map_of: "key \<in> fst ` set state \<longleftrightarrow> map_of state key \<noteq> None"
  by (simp add: map_of_eq_None_iff)

lemma keeps_refl: "keeps v v"
  by (simp add: keeps_def)

lemma keeps_trans: "keeps v v1 \<Longrightarrow> keeps v1 v2 \<Longrightarrow> keeps v v2"
  by (auto simp: keeps_def)

lemma keeps_updated: "keeps v (updated_object (ObjectVal v) h s t)"
  by (cases v) (simp_all add: keeps_def)

lemma existing_hash_stored [simp]:
  "existing_description_hash (ObjectVal v) = StringVal (stored_hash v)"
  by (cases v) simp_all

lemma stored_ts_updated [simp]:
  "stored_ts (updated_object (ObjectVal v) h s t) = stored_ts v"
  by (cases v) simp_all

subsection \<open>One step\<close>

lemma process_item_new_suppressed:
  assumes "map_of state (guid it) = None" "guid it \<notin> set Object_prototype_names" "0 < newCount"
  shows "process_item env True k it (state, None) newCount =
     ([], Inr ((AList.update (guid it) (Entry
        \<lparr>entry_title = title it, description_hash = hashDescription env (description it),
         entry_status = extractCurrentStatus (description it), first_seen = pubDate it,
         last_updated = toISOString_now env k, slack_message_ts = None,
         entry_link = link it\<rparr>) state, None), newCount))"
  using assms
  by (simp add: process_item_def get_property_ordinary set_property_ordinary)

lemma process_item_new_posted:
  assumes "map_of state (guid it) = None" "guid it \<notin> set Object_prototype_names"
    "\<not> (isFirstRun \<and> 0 < newCount)"
  shows "process_item env isFirstRun k it (state, None) newCount =
     (let incident = spread_item it (extractCurrentStatus (description it)) (pubDate it);
          posted = postNewIncident env k incident
      in case posted of
           Inl e \<Rightarrow> ([Send incident posted], Inl e)
         | Inr messageTs \<Rightarrow>
             ([Send incident posted], Inr ((AList.update (guid it) (Entry
                \<lparr>entry_title = title it, description_hash = hashDescription env (description it),
                 entry_status = extractCurrentStatus (description it), first_seen = pubDate it,
                 last_updated = toISOString_now env k, slack_message_ts = messageTs,
                 entry_link = link it\<rparr>) state, None), newCount + 1)))"
  using assms
  by (auto simp add: process_item_def Let_def get_property_ordinary
      set_property_ordinary[OF assms(2)] split: sum.splits)

lemma process_item_unchanged:
  assumes "map_of state (guid it) = Some v"
    "stored_hash v = hashDescription env (description it)"
  shows "process_item env isFirstRun k it (state, proto) newCount = ([], Inr ((state, proto), newCount))"
  using assms by (simp add: process_item_def get_property_own)

lemma process_item_changed_silent:
  assumes "map_of state (guid it) = Some (Entry existing)"
    "description_hash existing \<noteq> hashDescription env (description it)"
    "\<not> truthy (slack_message_ts existing)"
  shows "process_item env isFirstRun k it (state, proto) newCount =
     ([], Inr ((AList.update (guid it)
        (Entry (existing\<lparr>description_hash := hashDescription env (description it),
                  entry_status := extractCurrentStatus (description it),
                  last_updated := toISOString_now env k\<rparr>)) state, proto), newCount))"
  using assms
  by (auto simp add: process_item_def Let_def get_property_own set_property_own split: option.splits)

lemma process_item_changed_edit:
  assumes "map_of state (guid it) = Some (Entry existing)"
    "description_hash existing \<noteq> hashDescription env (description it)"
    "slack_message_ts existing = Some messageTs" "messageTs \<noteq> []"
  shows "process_item env isFirstRun k it (state, proto) newCount =
     (let incident = spread_item it (extractCurrentStatus (description it)) (first_seen existing);
          edited = updateIncidentMessage env k incident messageTs
      in case edited of
           Inl e \<Rightarrow> ([Edit incident messageTs edited], Inl e)
         | Inr returned \<Rightarrow>
             ([Edit incident messageTs edited], Inr ((AList.update (guid it)
                (Entry (existing\<lparr>description_hash := hashDescription env (description it),
                          entry_status := extractCurrentStatus (description it),
                          last_updated := toISOString_now env k\<rparr>)) state, proto), newCount)))"
  using assms
  by (auto simp add: process_item_def Let_def get_property_own set_property_own[OF assms(1)]
      split: option.splits sum.splits)

lemma guid_spread [simp]: "guid (spread_item it st seen) = guid it"
  by (simp add: spread_item_def)

text \<open>The calls of one step are Notifier calls about the item of that step.\<close>

lemma process_item_calls:
  assumes "process_item env fr k it obj n = (cs, r)"
  shows "\<forall>c\<in>set cs. is_notifier_call c \<and> call_guid c = Some (guid it)"
  using assms
  by (auto simp: process_item_def Let_def
      split: option.splits if_splits sum.splits jsval.splits stored.splits)

text \<open>A call of a step fails exactly when the step aborts the run.\<close>

lemma process_item_failed:
  assumes "process_item env fr k it obj n = (cs, r)"
  shows "(\<exists>c\<in>set cs. failed_call c) \<longleftrightarrow> (\<exists>e. r = Inl e)"
  using assms
  by (auto simp: process_item_def Let_def
      split: option.splits if_splits sum.splits jsval.splits stored.splits)

text \<open>
  What a step does to the state object: it writes at most the property of its item, by
  one assignment, or writes nothing.
\<close>

lemma process_item_writes:
  assumes "process_item env fr k it (st, pr) n = (cs, Inr (obj', n'))"
  shows "(obj' = (st, pr) \<and> truthy_val (get_property st pr (guid it)) \<and>
          existing_description_hash (get_property st pr (guid it)) =
            StringVal (hashDescription env (description it))) \<or>
         (\<not> truthy_val (get_property st pr (guid it)) \<and>
          (\<exists>e. obj' = set_property st pr (guid it) (Entry e) \<and>
             entry_title e = title it \<and>
             description_hash e = hashDescription env (description it) \<and>
             entry_status e = extractCurrentStatus (description it) \<and>
             first_seen e = pubDate it \<and> last_updated e = toISOString_now env k \<and>
             entry_link e = link it \<and>
             (slack_message_ts e = None \<or>
              postNewIncident env k (spread_item it (extractCurrentStatus (description it)) (pubDate it)) =
                Inr (slack_message_ts e)))) \<or>
         (truthy_val (get_property st pr (guid it)) \<and>
          obj' = set_property st pr (guid it)
            (updated_object (get_property st pr (guid it)) (hashDescription env (description it))
               (extractCurrentStatus (description it)) (toISOString_now env k)))"
  using assms
  by (auto simp: process_item_def Let_def
      split: option.splits if_splits sum.splits jsval.splits stored.splits)


text \<open>One step leaves every other own property alone and keeps what it does not overwrite.\<close>

lemma process_item_other:
  assumes "process_item env fr k it (st, pr) n = (cs, Inr ((st', pr'), n'))" "key \<noteq> guid it"
  shows "map_of st' key = map_of st key"
  using process_item_writes[OF assms(1)] assms(2)
  by (auto simp: set_property_other dest: arg_cong[where f = fst])

lemma process_item_same:
  assumes "process_item env fr k it (st, pr) n = (cs, Inr ((st', pr'), n'))"
    "map_of st (guid it) = Some v"
  shows "\<exists>v'. map_of st' (guid it) = Some v' \<and> keeps v v' \<and> pr' = pr \<and>
           fst ` set st' = fst ` set st"
proof -
  have g: "get_property st pr (guid it) = ObjectVal v"
    using assms(2) by (rule get_property_own)
  have k: "insert (guid it) (fst ` set st) = fst ` set st"
    using assms(2) by (auto simp: keys_map_of)
  from process_item_writes[OF assms(1)] g
  have "(st', pr') = (st, pr) \<or>
        (st', pr') = set_property st pr (guid it)
            (updated_object (ObjectVal v) (hashDescription env (description it))
               (extractCurrentStatus (description it)) (toISOString_now env k))"
    by auto
  then show ?thesis
  proof
    assume "(st', pr') = (st, pr)"
    with assms(2) show ?thesis by (simp add: keeps_refl)
  next
    assume "(st', pr') = set_property st pr (guid it)
            (updated_object (ObjectVal v) (hashDescription env (description it))
               (extractCurrentStatus (description it)) (toISOString_now env k))"
    then have "st' = AList.update (guid it)
            (updated_object (ObjectVal v) (hashDescription env (description it))
               (extractCurrentStatus (description it)) (toISOString_now env k)) st" "pr' = pr"
      by (simp_all add: set_property_own[OF assms(2)])
    then show ?thesis by (simp add: update_conv' keeps_updated keys_update k)
  qed
qed

lemma process_item_entry_kept:
  assumes "process_item env fr k it (st, pr) n = (cs, Inr ((st', pr'), n'))" "map_of st key = Some v"
  shows "\<exists>v'. map_of st' key = Some v' \<and> keeps v v'"
proof (cases "key = guid it")
  case True
  with assms process_item_same[of env fr k it st pr n cs st' pr' n' v] show ?thesis by blast
next
  case False
  with assms process_item_other[of env fr k it st pr n cs st' pr' n' key] show ?thesis
    by (simp add: keeps_refl)
qed

text \<open>
  A step on an item that is not named like a property of \<open>Object.prototype\<close> keeps the
  prototype and leaves the item with an own property.
\<close>

lemma process_item_ordinary:
  assumes "process_item env fr k it (st, None) n = (cs, Inr ((st', pr'), n'))"
    "guid it \<notin> set Object_prototype_names"
  shows "pr' = None \<and> fst ` set st' = insert (guid it) (fst ` set st)"
proof (cases "map_of st (guid it)")
  case None
  have g: "get_property st None (guid it) = Undefined"
    using None assms(2) by (simp add: get_property_ordinary)
  from process_item_writes[OF assms(1)] g
  obtain e where "(st', pr') = set_property st None (guid it) (Entry e)" by auto
  then show ?thesis by (simp add: set_property_ordinary[OF assms(2)] keys_update)
next
  case (Some v)
  from process_item_same[OF assms(1) Some] Some show ?thesis
    by (auto simp: keys_map_of)
qed

text \<open>No call is made about an object without a message identifier.\<close>

lemma process_item_null_silent:
  assumes "process_item env fr k it (st, pr) n = (cs, r)" "map_of st key = Some v" "stored_ts v = None"
  shows "\<forall>c\<in>set cs. call_guid c \<noteq> Some key"
proof (cases "key = guid it")
  case True
  with assms show ?thesis
    by (cases v)
       (auto simp: process_item_def Let_def get_property_own
        split: option.splits if_splits sum.splits)
next
  case False
  with process_item_calls[OF assms(1)] show ?thesis by auto
qed

subsection \<open>The loop\<close>

lemma reconcile_loop_Cons_Inr:
  assumes "reconcile_loop env fr k (it # its) obj n = (calls, Inr final)"
  obtains cs obj1 n1 cs' where "process_item env fr k it obj n = (cs, Inr (obj1, n1))"
    "reconcile_loop env fr (Suc k) its obj1 n1 = (cs', Inr final)" "calls = cs @ cs'"
  using assms by (auto split: prod.splits sum.splits)

lemma reconcile_loop_entry_kept:
  assumes "reconcile_loop env fr k items (st, pr) n = (calls, Inr (final, pr'))" "map_of st key = Some v"
  shows "\<exists>v'. map_of final key = Some v' \<and> keeps v v'"
  using assms
proof (induction items arbitrary: st pr n k calls v)
  case Nil
  then show ?case by (simp add: keeps_refl)
next
  case (Cons it its)
  from Cons.prems(1) obtain cs obj1 n1 cs' where
    p: "process_item env fr k it (st, pr) n = (cs, Inr (obj1, n1))" and
    r: "reconcile_loop env fr (Suc k) its obj1 n1 = (cs', Inr (final, pr'))"
    by (rule reconcile_loop_Cons_Inr)
  obtain st1 pr1 where o: "obj1 = (st1, pr1)" by (cases obj1)
  from process_item_entry_kept[OF p[unfolded o] Cons.prems(2)] obtain v1 where
    v1: "map_of st1 key = Some v1" "keeps v v1"
    by auto
  from Cons.IH[OF r[unfolded o] v1(1)] obtain v' where
    v': "map_of final key = Some v'" "keeps v1 v'"
    by auto
  from v' v1(2) show ?case by (auto intro: keeps_trans)
qed

lemma reconcile_loop_calls:
  assumes "reconcile_loop env fr k items obj n = (calls, r)"
  shows "\<forall>c\<in>set calls. is_notifier_call c \<and> (\<exists>it\<in>set items. call_guid c = Some (guid it))"
  using assms
proof (induction items arbitrary: obj n k calls r)
  case Nil
  then show ?case by simp
next
  case (Cons it its)
  obtain cs r1 where p: "process_item env fr k it obj n = (cs, r1)"
    by (cases "process_item env fr k it obj n")
  note pc = process_item_calls[OF p]
  show ?case
  proof (cases r1)
    case (Inl e)
    with p Cons.prems have "calls = cs" by simp
    with pc show ?thesis by auto
  next
    case (Inr b)
    obtain obj1 n1 where b: "b = (obj1, n1)" by (cases b)
    obtain cs' r' where r': "reconcile_loop env fr (Suc k) its obj1 n1 = (cs', r')"
      by (cases "reconcile_loop env fr (Suc k) its obj1 n1")
    with p Inr b Cons.prems have "calls = cs @ cs'" by simp
    with pc Cons.IH[OF r'] show ?thesis by auto
  qed
qed

lemma reconcile_loop_failed:
  assumes "reconcile_loop env fr k items obj n = (calls, r)"
  shows "(\<exists>c\<in>set calls. failed_call c) \<longleftrightarrow> (\<exists>e. r = Inl e)"
  using assms
proof (induction items arbitrary: obj n k calls r)
  case Nil
  then show ?case by auto
next
  case (Cons it its)
  obtain cs r1 where p: "process_item env fr k it obj n = (cs, r1)"
    by (cases "process_item env fr k it obj n")
  note pf = process_item_failed[OF p]
  show ?case
  proof (cases r1)
    case (Inl e)
    with p Cons.prems have "calls = cs" "r = Inl e" by simp_all
    with pf Inl show ?thesis by simp
  next
    case (Inr b)
    obtain obj1 n1 where b: "b = (obj1, n1)" by (cases b)
    obtain cs' r' where r': "reconcile_loop env fr (Suc k) its obj1 n1 = (cs', r')"
      by (cases "reconcile_loop env fr (Suc k) its obj1 n1")
    with p Inr b Cons.prems have c: "calls = cs @ cs'" "r = r'" by simp_all
    from pf Inr have "\<not> (\<exists>c\<in>set cs. failed_call c)" by simp
    with Cons.IH[OF r'] c show ?thesis by auto
  qed
qed

lemma reconcile_loop_null_silent:
  assumes "reconcile_loop env fr k items (st, pr) n = (calls, r)" "map_of st key = Some v"
    "stored_ts v = None"
  shows "\<forall>c\<in>set calls. call_guid c \<noteq> Some key"
  using assms
proof (induction items arbitrary: st pr n k calls v r)
  case Nil
  then show ?case by simp
next
  case (Cons it its)
  obtain cs r1 where p: "process_item env fr k it (st, pr) n = (cs, r1)"
    by (cases "process_item env fr k it (st, pr) n")
  note pc = process_item_null_silent[OF p Cons.prems(2,3)]
  show ?case
  proof (cases r1)
    case (Inl e)
    with p Cons.prems have "calls = cs" by simp
    with pc show ?thesis by auto
  next
    case (Inr b)
    obtain st1 pr1 n1 where b: "b = ((st1, pr1), n1)" by (cases b) auto
    obtain cs' r' where r': "reconcile_loop env fr (Suc k) its (st1, pr1) n1 = (cs', r')"
      by (cases "reconcile_loop env fr (Suc k) its (st1, pr1) n1")
    with p Inr b Cons.prems have c: "calls = cs @ cs'" by simp
    from process_item_entry_kept[OF p[unfolded Inr b] Cons.prems(2)] Cons.prems(3)
    obtain v1 where "map_of st1 key = Some v1" "stored_ts v1 = None" by (auto simp: keeps_def)
    from Cons.IH[OF r' this] pc c show ?thesis by auto
  qed
qed

text \<open>A feed whose items all have an own property with their fingerprint changes nothing.\<close>

lemma reconcile_loop_unchanged:
  assumes "\<forall>it\<in>set items. \<exists>v. map_of st (guid it) = Some v \<and>
             stored_hash v = hashDescription env (description it)"
  shows "reconcile_loop env fr k items (st, pr) n = ([], Inr (st, pr))"
  using assms
proof (induction items arbitrary: k)
  case Nil
  show ?case by simp
next
  case (Cons it its)
  then obtain v where "map_of st (guid it) = Some v"
    "stored_hash v = hashDescription env (description it)"
    by auto
  then have "process_item env fr k it (st, pr) n = ([], Inr ((st, pr), n))"
    by (rule process_item_unchanged)
  moreover have "reconcile_loop env fr (Suc k) its (st, pr) n = ([], Inr (st, pr))"
    using Cons by simp
  ultimately show ?case by simp
qed

text \<open>
  On a first run, after the first new incident, new items with ordinary and distinct
  identifiers are recorded without a call.
\<close>

lemma reconcile_loop_suppressed:
  assumes "0 < n" "distinct (map guid items)" "\<forall>it\<in>set items. map_of st (guid it) = None"
    "\<forall>it\<in>set items. guid it \<notin> set Object_prototype_names"
  shows "\<exists>final. reconcile_loop env True k items (st, None) n = ([], Inr (final, None)) \<and>
     (\<forall>key. key \<notin> guid ` set items \<longrightarrow> map_of final key = map_of st key) \<and>
     fst ` set final = guid ` set items \<union> fst ` set st \<and>
     (\<forall>j<length items. map_of final (guid (items ! j)) = Some (Entry
        \<lparr>entry_title = title (items ! j),
         description_hash = hashDescription env (description (items ! j)),
         entry_status = extractCurrentStatus (description (items ! j)),
         first_seen = pubDate (items ! j),
         last_updated = toISOString_now env (k + j), slack_message_ts = None,
         entry_link = link (items ! j)\<rparr>))"
  using assms
proof (induction items arbitrary: st k)
  case Nil
  then show ?case by simp
next
  case (Cons it its)
  define e0 where "e0 = \<lparr>entry_title = title it, description_hash = hashDescription env (description it),
         entry_status = extractCurrentStatus (description it), first_seen = pubDate it,
         last_updated = toISOString_now env k, slack_message_ts = None,
         entry_link = link it\<rparr>"
  define st1 where "st1 = AList.update (guid it) (Entry e0) st"
  have p: "process_item env True k it (st, None) n = ([], Inr ((st1, None), n))"
    unfolding st1_def e0_def using Cons.prems by (intro process_item_new_suppressed) auto
  have d: "distinct (map guid its)" and ni: "guid it \<notin> guid ` set its"
    using Cons.prems(2) by auto
  have ne: "guid it' \<noteq> guid it" if "it' \<in> set its" for it'
    using ni that by (metis imageI)
  have a: "\<forall>it'\<in>set its. map_of st1 (guid it') = None"
    using Cons.prems(3) ne by (simp add: st1_def update_conv')
  have b: "\<forall>it'\<in>set its. guid it' \<notin> set Object_prototype_names"
    using Cons.prems(4) by simp
  from Cons.IH[OF Cons.prems(1) d a b, of "Suc k"] obtain final where
    f: "reconcile_loop env True (Suc k) its (st1, None) n = ([], Inr (final, None))"
      "\<forall>key. key \<notin> guid ` set its \<longrightarrow> map_of final key = map_of st1 key"
      "fst ` set final = guid ` set its \<union> fst ` set st1"
      "\<forall>j<length its. map_of final (guid (its ! j)) = Some (Entry
        \<lparr>entry_title = title (its ! j),
         description_hash = hashDescription env (description (its ! j)),
         entry_status = extractCurrentStatus (description (its ! j)),
         first_seen = pubDate (its ! j),
         last_updated = toISOString_now env (Suc k + j), slack_message_ts = None,
         entry_link = link (its ! j)\<rparr>)"
    by blast
  have r: "reconcile_loop env True k (it # its) (st, None) n = ([], Inr (final, None))"
    using p f(1) by simp
  have o: "\<forall>key. key \<notin> guid ` set (it # its) \<longrightarrow> map_of final key = map_of st key"
    using f(2) by (auto simp: st1_def update_conv')
  have ks: "fst ` set final = guid ` set (it # its) \<union> fst ` set st"
    using f(3) by (simp add: st1_def keys_update)
  have h: "map_of final (guid it) = Some (Entry e0)"
    using f(2) ni by (simp add: st1_def update_conv')
  have "map_of final (guid ((it # its) ! j)) = Some (Entry
        \<lparr>entry_title = title ((it # its) ! j),
         description_hash = hashDescription env (description ((it # its) ! j)),
         entry_status = extractCurrentStatus (description ((it # its) ! j)),
         first_seen = pubDate ((it # its) ! j),
         last_updated = toISOString_now env (k + j), slack_message_ts = None,
         entry_link = link ((it # its) ! j)\<rparr>)" if "j < length (it # its)" for j
  proof (cases j)
    case 0
    with h show ?thesis by (simp add: e0_def)
  next
    case (Suc m)
    with that have "m < length its" by simp
    with f(4) Suc show ?thesis by simp
  qed
  with r o ks show ?case by blast
qed

subsection \<open>The loop on a loaded state\<close>

lemma reconcile_Inr_iff:
  "reconcile env fr k items st n = (calls, Inr final) \<longleftrightarrow>
     (\<exists>pr. reconcile_loop env fr k items (st, None) n = (calls, Inr (final, pr)))"
  by (auto simp: reconcile_def split: prod.splits sum.splits)

lemma reconcile_Inl_iff:
  "reconcile env fr k items st n = (calls, Inl e) \<longleftrightarrow>
     reconcile_loop env fr k items (st, None) n = (calls, Inl e)"
  by (auto simp: reconcile_def split: prod.splits sum.splits)

lemma reconcile_entry_kept:
  assumes "reconcile env fr k items st n = (calls, Inr final)" "map_of st key = Some v"
  shows "\<exists>v'. map_of final key = Some v' \<and> keeps v v'"
proof -
  from assms(1) obtain pr where "reconcile_loop env fr k items (st, None) n = (calls, Inr (final, pr))"
    by (auto simp: reconcile_Inr_iff)
  from reconcile_loop_entry_kept[OF this assms(2)] show ?thesis .
qed

lemma reconcile_calls:
  assumes "reconcile env fr k items st n = (calls, r)"
  shows "\<forall>c\<in>set calls. is_notifier_call c \<and> (\<exists>it\<in>set items. call_guid c = Some (guid it))"
proof -
  obtain r' where "reconcile_loop env fr k items (st, None) n = (calls, r')"
    using assms by (auto simp: reconcile_def split: prod.splits sum.splits)
  then show ?thesis by (rule reconcile_loop_calls)
qed

lemma reconcile_failed:
  assumes "reconcile env fr k items st n = (calls, r)"
  shows "(\<exists>c\<in>set calls. failed_call c) \<longleftrightarrow> (\<exists>e. r = Inl e)"
proof -
  obtain r' where l: "reconcile_loop env fr k items (st, None) n = (calls, r')"
    and e: "(\<exists>e. r = Inl e) \<longleftrightarrow> (\<exists>e. r' = Inl e)"
    using assms by (auto simp: reconcile_def split: prod.splits sum.splits)
  from reconcile_loop_failed[OF l] e show ?thesis by simp
qed

lemma reconcile_null_silent:
  assumes "reconcile env fr k items st n = (calls, r)" "map_of st key = Some v" "stored_ts v = None"
  shows "\<forall>c\<in>set calls. call_guid c \<noteq> Some key"
proof -
  obtain r' where "reconcile_loop env fr k items (st, None) n = (calls, r')"
    using assms(1) by (auto simp: reconcile_def split: prod.splits sum.splits)
  from reconcile_loop_null_silent[OF this assms(2,3)] show ?thesis .
qed

lemma reconcile_unchanged:
  assumes "\<forall>it\<in>set items. \<exists>v. map_of st (guid it) = Some v \<and>
             stored_hash v = hashDescription env (description it)"
  shows "reconcile env fr k items st n = ([], Inr st)"
  using reconcile_loop_unchanged[OF assms, of fr k None n] by (simp add: reconcile_def)

subsection \<open>A whole run\<close>

lemma processIncidents_eq:
  assumes "fetched_feed env = Inr items"
  shows "processIncidents env =
     (case reconcile env (loadState env = []) 0 items (loadState env) 0 of
        (calls, Inl e) \<Rightarrow> (calls, Inl e)
      | (calls, Inr state') \<Rightarrow> (calls @ fst (saveState env state'), snd (saveState env state')))"
  using assms by (simp add: processIncidents_def Let_def split: prod.splits sum.splits)

lemma saveState_effects:
  "fst (saveState env st) = [WriteFile (JSON_stringify env st)] \<or>
   fst (saveState env st) = [Mkdir, WriteFile (JSON_stringify env st)] \<or>
   fst (saveState env st) = [Mkdir] \<and> \<not> existsSync_cache env \<and> mkdir env \<noteq> None"
  by (auto simp: saveState_def Let_def split: option.splits)

lemma filter_notifier_saveState: "filter is_notifier_call (fst (saveState env st)) = []"
  using saveState_effects[of env st] by auto

subsection \<open>First run\<close>

text \<open>
  A first run on a feed of distinct identifiers, none of which names a property of
  \<open>Object.prototype\<close>: \<open>postNewIncident\<close> is called exactly once, for the first item, and
  no other Notifier call is made. When that call throws, the run aborts. When it
  returns, the final state holds exactly the identifiers of the feed; the first item is
  stored with the identifier that was returned, and every later item with a \<open>null\<close>
  message identifier and with its own title, fingerprint, status, publication date and
  link.
\<close>

theorem ordinary_first_run_posts_only_newest:
  assumes feed: "fetched_feed env = Inr (it # rest)"
    and empty: "loadState env = []"
    and dist: "distinct (map guid (it # rest))"
    and ord: "ordinary_guids (it # rest)"
  shows "filter is_notifier_call (fst (processIncidents env)) =
           [Send (spread_item it (extractCurrentStatus (description it)) (pubDate it))
              (postNewIncident env 0 (spread_item it (extractCurrentStatus (description it)) (pubDate it)))] \<and>
    (\<forall>e. postNewIncident env 0 (spread_item it (extractCurrentStatus (description it)) (pubDate it)) = Inl e \<longrightarrow>
       processIncidents env =
         ([Send (spread_item it (extractCurrentStatus (description it)) (pubDate it))
              (postNewIncident env 0 (spread_item it (extractCurrentStatus (description it)) (pubDate it)))], Inl e)) \<and>
    (\<forall>messageTs. postNewIncident env 0 (spread_item it (extractCurrentStatus (description it)) (pubDate it)) = Inr messageTs \<longrightarrow>
       (\<exists>final.
          reconcile env True 0 (it # rest) [] 0 =
            ([Send (spread_item it (extractCurrentStatus (description it)) (pubDate it))
              (postNewIncident env 0 (spread_item it (extractCurrentStatus (description it)) (pubDate it)))], Inr final) \<and>
          fst (processIncidents env) =
            Send (spread_item it (extractCurrentStatus (description it)) (pubDate it))
              (postNewIncident env 0 (spread_item it (extractCurrentStatus (description it)) (pubDate it))) #
            fst (saveState env final) \<and>
          fst ` set final = guid ` set (it # rest) \<and>
          map_of final (guid it) = Some (Entry
            \<lparr>entry_title = title it, description_hash = hashDescription env (description it),
             entry_status = extractCurrentStatus (description it), first_seen = pubDate it,
             last_updated = toISOString_now env 0, slack_message_ts = messageTs,
             entry_link = link it\<rparr>) \<and>
          (\<forall>j<length rest. map_of final (guid (rest ! j)) = Some (Entry
            \<lparr>entry_title = title (rest ! j),
             description_hash = hashDescription env (description (rest ! j)),
             entry_status = extractCurrentStatus (description (rest ! j)),
             first_seen = pubDate (rest ! j),
             last_updated = toISOString_now env (Suc j), slack_message_ts = None,
             entry_link = link (rest ! j)\<rparr>))))"
proof -
  define inc where "inc = spread_item it (extractCurrentStatus (description it)) (pubDate it)"
  have oi: "guid it \<notin> set Object_prototype_names"
    and orest: "\<forall>it'\<in>set rest. guid it' \<notin> set Object_prototype_names"
    using ord by (simp_all add: ordinary_guids_def)
  have pe: "processIncidents env =
     (case reconcile env True 0 (it # rest) [] 0 of
        (calls, Inl e) \<Rightarrow> (calls, Inl e)
      | (calls, Inr state') \<Rightarrow> (calls @ fst (saveState env state'), snd (saveState env state')))"
    using processIncidents_eq[OF feed] empty by simp
  have p: "process_item env True 0 it ([], None) 0 =
     (case postNewIncident env 0 inc of
           Inl e \<Rightarrow> ([Send inc (postNewIncident env 0 inc)], Inl e)
         | Inr messageTs \<Rightarrow>
             ([Send inc (postNewIncident env 0 inc)], Inr ((AList.update (guid it) (Entry
                \<lparr>entry_title = title it, description_hash = hashDescription env (description it),
                 entry_status = extractCurrentStatus (description it), first_seen = pubDate it,
                 last_updated = toISOString_now env 0, slack_message_ts = messageTs,
                 entry_link = link it\<rparr>) [], None), 0 + 1)))"
    unfolding inc_def using oi by (subst process_item_new_posted) (simp_all add: Let_def)
  have failed: "processIncidents env = ([Send inc (postNewIncident env 0 inc)], Inl e)"
    if "postNewIncident env 0 inc = Inl e" for e
    using that p pe by (simp add: reconcile_def)
  have posted: "\<exists>final.
          reconcile env True 0 (it # rest) [] 0 = ([Send inc (postNewIncident env 0 inc)], Inr final) \<and>
          fst (processIncidents env) = Send inc (postNewIncident env 0 inc) # fst (saveState env final) \<and>
          fst ` set final = guid ` set (it # rest) \<and>
          map_of final (guid it) = Some (Entry
            \<lparr>entry_title = title it, description_hash = hashDescription env (description it),
             entry_status = extractCurrentStatus (description it), first_seen = pubDate it,
             last_updated = toISOString_now env 0, slack_message_ts = messageTs,
             entry_link = link it\<rparr>) \<and>
          (\<forall>j<length rest. map_of final (guid (rest ! j)) = Some (Entry
            \<lparr>entry_title = title (rest ! j),
             description_hash = hashDescription env (description (rest ! j)),
             entry_status = extractCurrentStatus (description (rest ! j)),
             first_seen = pubDate (rest ! j),
             last_updated = toISOString_now env (Suc j), slack_message_ts = None,
             entry_link = link (rest ! j)\<rparr>))"
    if ok: "postNewIncident env 0 inc = Inr messageTs" for messageTs
  proof -
    define e0 where "e0 = \<lparr>entry_title = title it, description_hash = hashDescription env (description it),
             entry_status = extractCurrentStatus (description it), first_seen = pubDate it,
             last_updated = toISOString_now env 0, slack_message_ts = messageTs,
             entry_link = link it\<rparr>"
    have p1: "process_item env True 0 it ([], None) 0 =
        ([Send inc (postNewIncident env 0 inc)], Inr (([(guid it, Entry e0)], None), 1))"
      using p ok by (simp add: e0_def)
    have ni: "guid it \<notin> guid ` set rest" and d: "distinct (map guid rest)"
      using dist by auto
    have ne: "guid it' \<noteq> guid it" if "it' \<in> set rest" for it'
      using ni that by (metis imageI)
    then have "\<forall>it'\<in>set rest. map_of [(guid it, Entry e0)] (guid it') = None" by simp
    from reconcile_loop_suppressed[OF _ d this orest, of 1 env 1] obtain final where
      f: "reconcile_loop env True 1 rest ([(guid it, Entry e0)], None) 1 = ([], Inr (final, None))"
        "\<forall>key. key \<notin> guid ` set rest \<longrightarrow> map_of final key = map_of [(guid it, Entry e0)] key"
        "fst ` set final = guid ` set rest \<union> fst ` set [(guid it, Entry e0)]"
        "\<forall>j<length rest. map_of final (guid (rest ! j)) = Some (Entry
          \<lparr>entry_title = title (rest ! j),
           description_hash = hashDescription env (description (rest ! j)),
           entry_status = extractCurrentStatus (description (rest ! j)),
           first_seen = pubDate (rest ! j),
           last_updated = toISOString_now env (1 + j), slack_message_ts = None,
           entry_link = link (rest ! j)\<rparr>)"
      by auto
    have r: "reconcile env True 0 (it # rest) [] 0 = ([Send inc (postNewIncident env 0 inc)], Inr final)"
      using p1 f(1) by (simp add: reconcile_def)
    have "fst (processIncidents env) = Send inc (postNewIncident env 0 inc) # fst (saveState env final)"
      using pe r by simp
    moreover have "fst ` set final = guid ` set (it # rest)"
      using f(3) by auto
    moreover have "map_of final (guid it) = Some (Entry e0)"
      using f(2) ni by simp
    ultimately show ?thesis using r f(4) unfolding e0_def by auto
  qed
  have calls: "filter is_notifier_call (fst (processIncidents env)) = [Send inc (postNewIncident env 0 inc)]"
  proof (cases "postNewIncident env 0 inc")
    case (Inl e)
    from failed[OF this] show ?thesis by simp
  next
    case (Inr messageTs)
    from posted[OF this] obtain final where
      "fst (processIncidents env) = Send inc (postNewIncident env 0 inc) # fst (saveState env final)" by blast
    then show ?thesis by (simp add: filter_notifier_saveState)
  qed
  from calls failed posted show ?thesis unfolding inc_def by blast
qed

theorem ordinary_first_run_posts_only_newest_example:
  "fetched_feed first_run_env =
     Inr (item_a # [sample_item ''b'' ''Monitoring'', sample_item ''c'' ''Investigating'']) \<and>
   loadState first_run_env = [] \<and>
   distinct (map guid (item_a # [sample_item ''b'' ''Monitoring'', sample_item ''c'' ''Investigating''])) \<and>
   ordinary_guids (item_a # [sample_item ''b'' ''Monitoring'', sample_item ''c'' ''Investigating'']) \<and>
   filter is_notifier_call (fst (processIncidents first_run_env)) =
     [Send (spread_item item_a (extractCurrentStatus (description item_a)) (pubDate item_a))
        (Inr (Some (lit ''T1'')))]"
proof -
  have f: "fetched_feed first_run_env =
     Inr (item_a # [sample_item ''b'' ''Monitoring'', sample_item ''c'' ''Investigating''])"
    by (simp add: first_run_env_def sample_env_def)
  have l: "loadState first_run_env = []"
    by (simp add: first_run_env_def sample_env_def loadState_def)
  have d: "distinct (map guid (item_a # [sample_item ''b'' ''Monitoring'', sample_item ''c'' ''Investigating'']))"
    by (simp add: item_a_def sample_item_def lit_def)
  have og: "ordinary_guids (item_a # [sample_item ''b'' ''Monitoring'', sample_item ''c'' ''Investigating''])"
    by (simp add: ordinary_guids_def Object_prototype_names_def item_a_def sample_item_def lit_def)
  have p: "postNewIncident first_run_env 0
      (spread_item item_a (extractCurrentStatus (description item_a)) (pubDate item_a)) =
      Inr (Some (lit ''T1''))"
    by (simp add: first_run_env_def sample_env_def postNewIncident_def slack_configured_def
        token_def slack_ok_def lit_def)
  have "filter is_notifier_call (fst (processIncidents first_run_env)) =
     [Send (spread_item item_a (extractCurrentStatus (description item_a)) (pubDate item_a))
        (postNewIncident first_run_env 0
           (spread_item item_a (extractCurrentStatus (description item_a)) (pubDate item_a)))]"
    using ordinary_first_run_posts_only_newest[OF f l d og] by (rule conjunct1)
  then have "filter is_notifier_call (fst (processIncidents first_run_env)) =
     [Send (spread_item item_a (extractCurrentStatus (description item_a)) (pubDate item_a))
        (Inr (Some (lit ''T1'')))]"
    unfolding p .
  with f l d og show ?thesis by (intro conjI)
qed

text \<open>
  Claim C1, on the code: a first run where the newest incident of the feed has the
  identifier \<open>constructor\<close> and an older one the identifier \<open>b\<close>. The state object is empty
  and \<open>state["constructor"]\<close> is the function inherited from \<open>Object.prototype\<close>, so the
  newest incident takes the branch of an updated incident: no call is made about it, it
  is stored with a fingerprint, a status and a time only, and \<open>newCount\<close> stays 0. The
  single call of \<open>postNewIncident\<close> is then made for the older incident \<open>b\<close>, which is
  stored with the message identifier \<open>T1\<close>.
\<close>

theorem first_run_constructor_guid_posts_older_incident:
  "loadState constructor_first_env = [] \<and>
   fetched_feed constructor_first_env =
     Inr [sample_item ''constructor'' ''Resolved'', sample_item ''b'' ''Monitoring''] \<and>
   distinct (map guid [sample_item ''constructor'' ''Resolved'', sample_item ''b'' ''Monitoring'']) \<and>
   get_property [] None (guid (sample_item ''constructor'' ''Resolved'')) = FunctionVal \<and>
   reconcile constructor_first_env True 0
       [sample_item ''constructor'' ''Resolved'', sample_item ''b'' ''Monitoring''] [] 0 =
     ([Send (spread_item (sample_item ''b'' ''Monitoring'') (extractCurrentStatus (lit ''Monitoring''))
               (lit ''14 Jan 2026''))
         (Inr (Some (lit ''T1'')))],
      Inr [(lit ''constructor'',
            Partial [] (lit ''Resolved'') (extractCurrentStatus (lit ''Resolved''))
              (lit ''2026-01-14T14:20:00.000Z'')),
           (lit ''b'',
            Entry \<lparr>entry_title = lit ''Elevated errors'', description_hash = lit ''Monitoring'',
              entry_status = extractCurrentStatus (lit ''Monitoring''),
              first_seen = lit ''14 Jan 2026'',
              last_updated = lit ''2026-01-14T14:20:00.000Z'',
              slack_message_ts = Some (lit ''T1''),
              entry_link = lit ''https://status.claude.com''\<rparr>)]) \<and>
   filter is_notifier_call (fst (processIncidents constructor_first_env)) =
     [Send (spread_item (sample_item ''b'' ''Monitoring'') (extractCurrentStatus (lit ''Monitoring''))
               (lit ''14 Jan 2026''))
         (Inr (Some (lit ''T1'')))]"
  by (simp add: processIncidents_def reconcile_def process_item_def constructor_first_env_def
      sample_env_def sample_item_def token_def slack_ok_def hashDescription_def slice_def
      slice_index_def loadState_def saveState_def slack_configured_def postNewIncident_def
      updateIncidentMessage_def spread_item_def get_property_def set_property_def
      Object_prototype_names_def lit_def Let_def)

subsection \<open>Changed entries\<close>

text \<open>
  Claim C2, as the code has it. The item has an entry whose fingerprint differs from
  the new one and whose message identifier is a non-empty string (the test
  \<open>if (existing.slack_message_ts)\<close> is one of truthiness). Then the step calls
  \<open>updateIncidentMessage\<close> exactly once, with the stored identifier, and makes no other
  call. When the call throws, the run aborts. When it returns, the entry gets the new
  fingerprint, status and time, and keeps the stored message identifier: what the call
  returned is discarded.
\<close>

theorem changed_posted_entry_is_edited:
  assumes "map_of state (guid it) = Some (Entry existing)"
    and "description_hash existing \<noteq> hashDescription env (description it)"
    and "slack_message_ts existing = Some messageTs"
    and "messageTs \<noteq> []"
  shows "fst (process_item env isFirstRun k it (state, proto) newCount) =
           [Edit (spread_item it (extractCurrentStatus (description it)) (first_seen existing)) messageTs
              (updateIncidentMessage env k
                 (spread_item it (extractCurrentStatus (description it)) (first_seen existing)) messageTs)] \<and>
    (\<forall>e. updateIncidentMessage env k
            (spread_item it (extractCurrentStatus (description it)) (first_seen existing)) messageTs = Inl e \<longrightarrow>
       snd (process_item env isFirstRun k it (state, proto) newCount) = Inl e) \<and>
    (\<forall>returned. updateIncidentMessage env k
            (spread_item it (extractCurrentStatus (description it)) (first_seen existing)) messageTs = Inr returned \<longrightarrow>
       (\<exists>state'. snd (process_item env isFirstRun k it (state, proto) newCount) =
            Inr ((state', proto), newCount) \<and>
          map_of state' (guid it) = Some (Entry
            \<lparr>entry_title = entry_title existing,
             description_hash = hashDescription env (description it),
             entry_status = extractCurrentStatus (description it),
             first_seen = first_seen existing,
             last_updated = toISOString_now env k,
             slack_message_ts = Some messageTs,
             entry_link = entry_link existing\<rparr>) \<and>
          (\<forall>key. key \<noteq> guid it \<longrightarrow> map_of state' key = map_of state key)))"
  using assms
  by (cases existing)
     (auto simp: process_item_changed_edit[OF assms] Let_def update_conv' split: sum.splits)

theorem changed_posted_entry_is_edited_witness:
  "map_of posted_state (guid item_a) = Some (Entry (sample_entry ''old'' (Some (lit ''T1'')))) \<and>
   description_hash (sample_entry ''old'' (Some (lit ''T1''))) \<noteq>
     hashDescription edit_env (description item_a) \<and>
   slack_message_ts (sample_entry ''old'' (Some (lit ''T1''))) = Some (lit ''T1'') \<and>
   lit ''T1'' \<noteq> [] \<and>
   fst (process_item edit_env False 0 item_a (posted_state, None) 0) =
     [Edit (spread_item item_a (extractCurrentStatus (description item_a))
              (first_seen (sample_entry ''old'' (Some (lit ''T1'')))))
        (lit ''T1'') (Inr (lit ''T2''))]"
proof -
  have a: "map_of posted_state (guid item_a) = Some (Entry (sample_entry ''old'' (Some (lit ''T1''))))"
    by (simp add: posted_state_def item_a_def sample_item_def)
  have b: "description_hash (sample_entry ''old'' (Some (lit ''T1''))) \<noteq>
     hashDescription edit_env (description item_a)"
    by (simp add: edit_env_def sample_env_def item_a_def sample_item_def sample_entry_def hashDescription_def slice_def slice_index_def lit_def)
  have c: "slack_message_ts (sample_entry ''old'' (Some (lit ''T1''))) = Some (lit ''T1'')"
    by (simp add: sample_entry_def)
  have d: "lit ''T1'' \<noteq> []" by (simp add: lit_def)
  have u: "updateIncidentMessage edit_env 0
     (spread_item item_a (extractCurrentStatus (description item_a))
              (first_seen (sample_entry ''old'' (Some (lit ''T1''))))) (lit ''T1'') = Inr (lit ''T2'')"
    by (simp add: edit_env_def sample_env_def updateIncidentMessage_def slack_configured_def
        token_def slack_ok_def lit_def)
  from changed_posted_entry_is_edited[OF a b c d, of False 0 None 0] u a b c d show ?thesis by simp
qed

text \<open>
  The entry of \<open>a\<close> was posted as message \<open>T1\<close>, and Slack answers the update with the
  identifier \<open>T2\<close>: the entry keeps \<open>T1\<close>. With the empty string as stored identifier,
  which is not \<open>null\<close>, no call is made at all.
\<close>
theorem edit_result_is_not_stored_counterexample:
  "process_item edit_env False 0 item_a (posted_state, None) 0 =
     ([Edit (spread_item item_a (extractCurrentStatus (lit ''Resolved'')) (lit ''14 Jan 2026''))
         (lit ''T1'') (Inr (lit ''T2''))],
      Inr (([(lit ''a'',
             Entry \<lparr>entry_title = lit ''Elevated errors'', description_hash = lit ''Resolved'',
              entry_status = extractCurrentStatus (lit ''Resolved''),
              first_seen = lit ''14 Jan 2026'',
              last_updated = lit ''2026-01-14T14:20:00.000Z'',
              slack_message_ts = Some (lit ''T1''),
              entry_link = lit ''https://status.claude.com''\<rparr>)], None), 0)) \<and>
   lit ''T1'' \<noteq> lit ''T2'' \<and>
   map_of empty_ts_state (guid item_a) = Some (Entry (sample_entry ''old'' (Some []))) \<and>
   fst (process_item edit_env False 0 item_a (empty_ts_state, None) 0) = []"
  by (simp add: process_item_def edit_env_def sample_env_def item_a_def sample_item_def sample_entry_def posted_state_def
      empty_ts_state_def token_def slack_ok_def hashDescription_def slice_def slice_index_def loadState_def saveState_def
      slack_configured_def postNewIncident_def updateIncidentMessage_def spread_item_def
      get_property_def set_property_def lit_def Let_def)

text \<open>
  Claim C3. The item has an entry with a \<open>null\<close> message identifier and a fingerprint
  that differs from the new one. Then the step makes no Notifier call; the entry gets
  the new fingerprint, status and time; its title, first-seen date, message identifier
  and link stay as they were, and so does every other entry.
\<close>

theorem changed_suppressed_entry_is_silent:
  assumes "map_of state (guid it) = Some (Entry existing)"
    and "slack_message_ts existing = None"
    and "description_hash existing \<noteq> hashDescription env (description it)"
  shows "\<exists>state'. process_item env isFirstRun k it (state, proto) newCount =
            ([], Inr ((state', proto), newCount)) \<and>
          map_of state' (guid it) = Some (Entry
            \<lparr>entry_title = entry_title existing,
             description_hash = hashDescription env (description it),
             entry_status = extractCurrentStatus (description it),
             first_seen = first_seen existing,
             last_updated = toISOString_now env k,
             slack_message_ts = None,
             entry_link = entry_link existing\<rparr>) \<and>
          (\<forall>key. key \<noteq> guid it \<longrightarrow> map_of state' key = map_of state key)"
proof -
  have "\<not> truthy (slack_message_ts existing)" using assms(2) by simp
  from process_item_changed_silent[OF assms(1) assms(3) this] assms(2)
  show ?thesis by (cases existing) (auto simp: update_conv')
qed

theorem changed_suppressed_entry_is_silent_witness:
  "map_of suppressed_state (guid item_a) = Some (Entry (sample_entry ''old'' None)) \<and>
   slack_message_ts (sample_entry ''old'' None) = None \<and>
   description_hash (sample_entry ''old'' None) \<noteq> hashDescription edit_env (description item_a) \<and>
   (\<exists>state'. process_item edit_env False 0 item_a (suppressed_state, None) 0 =
        ([], Inr ((state', None), 0)) \<and>
      map_of state' (guid item_a) = Some (Entry
        \<lparr>entry_title = entry_title (sample_entry ''old'' None),
         description_hash = hashDescription edit_env (description item_a),
         entry_status = extractCurrentStatus (description item_a),
         first_seen = first_seen (sample_entry ''old'' None),
         last_updated = toISOString_now edit_env 0,
         slack_message_ts = None,
         entry_link = entry_link (sample_entry ''old'' None)\<rparr>))"
proof -
  have a: "map_of suppressed_state (guid item_a) = Some (Entry (sample_entry ''old'' None))"
    by (simp add: suppressed_state_def item_a_def sample_item_def)
  have b: "slack_message_ts (sample_entry ''old'' None) = None"
    by (simp add: sample_entry_def)
  have c: "description_hash (sample_entry ''old'' None) \<noteq> hashDescription edit_env (description item_a)"
    by (simp add: edit_env_def sample_env_def item_a_def sample_item_def sample_entry_def hashDescription_def slice_def slice_index_def lit_def)
  from changed_suppressed_entry_is_silent[OF a b c, of False 0 None 0] a b c show ?thesis by blast
qed

subsection \<open>The store only grows\<close>

lemma successive_runs_entry_kept:
  assumes "successive_runs runs st = (calls, final)" "map_of st key = Some v"
  shows "\<exists>v'. map_of final key = Some v' \<and> keeps v v'"
  using assms
proof (induction runs arbitrary: st calls v)
  case Nil
  then show ?case by (simp add: keeps_refl)
next
  case (Cons run runs)
  obtain env items where run: "run = (env, items)" by (cases run)
  obtain cs r where rc: "reconcile env (length (map fst st) = 0) 0 items st 0 = (cs, r)"
    by (cases "reconcile env (length (map fst st) = 0) 0 items st 0")
  show ?case
  proof (cases r)
    case (Inl x)
    obtain cs' where "successive_runs runs st = (cs', final)"
      using Cons.prems(1) run rc Inl by (auto split: prod.splits)
    from Cons.IH[OF this Cons.prems(2)] show ?thesis .
  next
    case (Inr st1)
    obtain cs' where s: "successive_runs runs st1 = (cs', final)"
      using Cons.prems(1) run rc Inr by (auto split: prod.splits)
    from reconcile_entry_kept[OF rc[unfolded Inr] Cons.prems(2)] obtain v1 where
      v1: "map_of st1 key = Some v1" "keeps v v1"
      by auto
    from Cons.IH[OF s v1(1)] obtain v' where v': "map_of final key = Some v'" "keeps v1 v'"
      by auto
    from v' v1(2) show ?thesis by (auto intro: keeps_trans)
  qed
qed

lemma successive_runs_null_silent:
  assumes "successive_runs runs st = (calls, final)" "map_of st key = Some v" "stored_ts v = None"
  shows "\<forall>c\<in>set calls. call_guid c \<noteq> Some key"
  using assms
proof (induction runs arbitrary: st calls v)
  case Nil
  then show ?case by simp
next
  case (Cons run runs)
  obtain env items where run: "run = (env, items)" by (cases run)
  obtain cs r where rc: "reconcile env (length (map fst st) = 0) 0 items st 0 = (cs, r)"
    by (cases "reconcile env (length (map fst st) = 0) 0 items st 0")
  note here = reconcile_null_silent[OF rc Cons.prems(2,3)]
  show ?case
  proof (cases r)
    case (Inl x)
    obtain cs' where s: "successive_runs runs st = (cs', final)" and c: "calls = cs @ cs'"
      using Cons.prems(1) run rc Inl by (auto split: prod.splits)
    from Cons.IH[OF s Cons.prems(2,3)] here c show ?thesis by auto
  next
    case (Inr st1)
    obtain cs' where s: "successive_runs runs st1 = (cs', final)" and c: "calls = cs @ cs'"
      using Cons.prems(1) run rc Inr by (auto split: prod.splits)
    from reconcile_entry_kept[OF rc[unfolded Inr] Cons.prems(2)] Cons.prems(3) obtain v1 where
      v1: "map_of st1 key = Some v1" "stored_ts v1 = None"
      by (auto simp: keeps_def)
    from Cons.IH[OF s v1] here c show ?thesis by auto
  qed
qed

lemma keeps_entry_ts:
  assumes "keeps v v'"
  shows "\<forall>e. v = Entry e \<longrightarrow>
          (\<exists>e'. v' = Entry e' \<and>
             (slack_message_ts e \<noteq> None \<longrightarrow>
                slack_message_ts e' \<noteq> None \<and> slack_message_ts e' = slack_message_ts e))"
  using assms by (auto simp: keeps_def)

text \<open>
  Claim C5. Whatever the feed and the environment, a reconciliation pass that reaches
  its end, and any sequence of runs, keeps every identifier of the state it starts from,
  and an entry whose message identifier is not \<open>null\<close> there is still an entry with that
  same identifier afterwards.
\<close>

theorem store_entries_never_removed_nor_cleared:
  "(\<forall>calls final key v.
      reconcile env isFirstRun k feedItems state newCount = (calls, Inr final) \<and>
      map_of state key = Some v \<longrightarrow>
      key \<in> fst ` set final \<and>
      (\<exists>v'. map_of final key = Some v' \<and>
         (\<forall>e. v = Entry e \<longrightarrow>
            (\<exists>e'. v' = Entry e' \<and>
               (slack_message_ts e \<noteq> None \<longrightarrow>
                  slack_message_ts e' \<noteq> None \<and> slack_message_ts e' = slack_message_ts e))))) \<and>
   (\<forall>calls final key v.
      successive_runs runs state = (calls, final) \<and> map_of state key = Some v \<longrightarrow>
      key \<in> fst ` set final \<and>
      (\<exists>v'. map_of final key = Some v' \<and>
         (\<forall>e. v = Entry e \<longrightarrow>
            (\<exists>e'. v' = Entry e' \<and>
               (slack_message_ts e \<noteq> None \<longrightarrow>
                  slack_message_ts e' \<noteq> None \<and> slack_message_ts e' = slack_message_ts e)))))"
proof (intro conjI allI impI)
  fix calls final key v
  assume a: "reconcile env isFirstRun k feedItems state newCount = (calls, Inr final) \<and>
      map_of state key = Some v"
  then obtain v' where v': "map_of final key = Some v'" "keeps v v'"
    using reconcile_entry_kept[of env isFirstRun k feedItems state newCount calls final key v] by blast
  from v'(1) show "key \<in> fst ` set final" by (simp add: keys_map_of)
  from v'(1) keeps_entry_ts[OF v'(2)]
  show "\<exists>v'. map_of final key = Some v' \<and>
         (\<forall>e. v = Entry e \<longrightarrow>
            (\<exists>e'. v' = Entry e' \<and>
               (slack_message_ts e \<noteq> None \<longrightarrow>
                  slack_message_ts e' \<noteq> None \<and> slack_message_ts e' = slack_message_ts e)))"
    by blast
next
  fix calls final key v
  assume a: "successive_runs runs state = (calls, final) \<and> map_of state key = Some v"
  then obtain v' where v': "map_of final key = Some v'" "keeps v v'"
    using successive_runs_entry_kept[of runs state calls final key v] by blast
  from v'(1) show "key \<in> fst ` set final" by (simp add: keys_map_of)
  from v'(1) keeps_entry_ts[OF v'(2)]
  show "\<exists>v'. map_of final key = Some v' \<and>
         (\<forall>e. v = Entry e \<longrightarrow>
            (\<exists>e'. v' = Entry e' \<and>
               (slack_message_ts e \<noteq> None \<longrightarrow>
                  slack_message_ts e' \<noteq> None \<and> slack_message_ts e' = slack_message_ts e)))"
    by blast
qed

lemma edit_run:
  "reconcile edit_env False 0 [item_a] posted_state 0 =
     ([Edit (spread_item item_a (extractCurrentStatus (lit ''Resolved'')) (lit ''14 Jan 2026''))
         (lit ''T1'') (Inr (lit ''T2''))],
      Inr [(lit ''a'',
            Entry ((sample_entry ''old'' (Some (lit ''T1'')))
              \<lparr>description_hash := lit ''Resolved'',
               entry_status := extractCurrentStatus (lit ''Resolved''),
               last_updated := lit ''2026-01-14T14:20:00.000Z''\<rparr>))])"
  by (simp add: reconcile_def process_item_def edit_env_def sample_env_def item_a_def sample_item_def
      sample_entry_def posted_state_def
      token_def slack_ok_def hashDescription_def slice_def slice_index_def loadState_def saveState_def
      slack_configured_def postNewIncident_def updateIncidentMessage_def spread_item_def
      get_property_def set_property_def lit_def Let_def)

theorem store_entries_never_removed_nor_cleared_witness:
  "reconcile edit_env False 0 [item_a] posted_state 0 =
     ([Edit (spread_item item_a (extractCurrentStatus (lit ''Resolved'')) (lit ''14 Jan 2026''))
         (lit ''T1'') (Inr (lit ''T2''))],
      Inr [(lit ''a'',
            Entry ((sample_entry ''old'' (Some (lit ''T1'')))
              \<lparr>description_hash := lit ''Resolved'',
               entry_status := extractCurrentStatus (lit ''Resolved''),
               last_updated := lit ''2026-01-14T14:20:00.000Z''\<rparr>))]) \<and>
   successive_runs [(edit_env, [item_a])] posted_state =
     ([Edit (spread_item item_a (extractCurrentStatus (lit ''Resolved'')) (lit ''14 Jan 2026''))
         (lit ''T1'') (Inr (lit ''T2''))],
      [(lit ''a'',
            Entry ((sample_entry ''old'' (Some (lit ''T1'')))
              \<lparr>description_hash := lit ''Resolved'',
               entry_status := extractCurrentStatus (lit ''Resolved''),
               last_updated := lit ''2026-01-14T14:20:00.000Z''\<rparr>))]) \<and>
   map_of posted_state (lit ''a'') = Some (Entry (sample_entry ''old'' (Some (lit ''T1'')))) \<and>
   slack_message_ts (sample_entry ''old'' (Some (lit ''T1''))) \<noteq> None \<and>
   lit ''a'' \<in> fst ` set [(lit ''a'',
            Entry ((sample_entry ''old'' (Some (lit ''T1'')))
              \<lparr>description_hash := lit ''Resolved'',
               entry_status := extractCurrentStatus (lit ''Resolved''),
               last_updated := lit ''2026-01-14T14:20:00.000Z''\<rparr>))]"
proof -
  define calls where "calls = [Edit (spread_item item_a (extractCurrentStatus (lit ''Resolved'')) (lit ''14 Jan 2026''))
         (lit ''T1'') (Inr (lit ''T2''))]"
  define final where "final = [(lit ''a'',
            Entry ((sample_entry ''old'' (Some (lit ''T1'')))
              \<lparr>description_hash := lit ''Resolved'',
               entry_status := extractCurrentStatus (lit ''Resolved''),
               last_updated := lit ''2026-01-14T14:20:00.000Z''\<rparr>))]"
  have r: "reconcile edit_env False 0 [item_a] posted_state 0 = (calls, Inr final)"
    unfolding calls_def final_def by (rule edit_run)
  have s: "successive_runs [(edit_env, [item_a])] posted_state = (calls, final)"
    using r by (simp add: posted_state_def)
  have m: "map_of posted_state (lit ''a'') = Some (Entry (sample_entry ''old'' (Some (lit ''T1''))))"
    by (simp add: posted_state_def)
  have n: "slack_message_ts (sample_entry ''old'' (Some (lit ''T1''))) \<noteq> None"
    by (simp add: sample_entry_def)
  from store_entries_never_removed_nor_cleared[of edit_env False 0 "[item_a]" posted_state 0
      "[(edit_env, [item_a])]"] r s m
  have "lit ''a'' \<in> fst ` set final" by blast
  with r s m n show ?thesis unfolding calls_def final_def by blast
qed

subsection \<open>Unchanged feed\<close>

text \<open>
  Claim C6. The state file holds what \<open>saveState\<close> wrote for a state \<open>saved\<close>, it decodes
  to \<open>saved\<close>, and every feed item has an own property in \<open>saved\<close> with the fingerprint of
  its narrative. Then the run makes no Notifier call and does what \<open>saveState\<close> does on
  \<open>saved\<close>: whatever it writes to the state file is the content that was loaded, and it
  does write unless \<open>mkdir\<close> fails.
\<close>

theorem unchanged_feed_is_idempotent:
  assumes feed: "fetched_feed env = Inr feedItems"
    and rd: "readFile env = Inr content"
    and saved: "content = JSON_stringify env saved"
    and decodes: "JSON_parse env content = Some saved"
    and same: "\<forall>it\<in>set feedItems. \<exists>v. map_of saved (guid it) = Some v \<and>
             stored_hash v = hashDescription env (description it)"
  shows "filter is_notifier_call (fst (processIncidents env)) = [] \<and>
         processIncidents env = saveState env saved \<and>
         (\<forall>c. WriteFile c \<in> set (fst (processIncidents env)) \<longrightarrow> c = content) \<and>
         (existsSync_cache env \<or> mkdir env = None \<longrightarrow>
            WriteFile content \<in> set (fst (processIncidents env)))"
proof -
  have l: "loadState env = saved" using rd decodes by (simp add: loadState_def)
  have "reconcile env (loadState env = []) 0 feedItems (loadState env) 0 = ([], Inr saved)"
    unfolding l using same by (rule reconcile_unchanged)
  with processIncidents_eq[OF feed] have p: "processIncidents env = saveState env saved" by simp
  show ?thesis
    unfolding p using saveState_effects[of env saved] saved
    by (auto simp: saveState_def Let_def split: option.splits)
qed

theorem unchanged_feed_is_idempotent_witness:
  "fetched_feed unchanged_env = Inr [item_a] \<and>
   readFile unchanged_env = Inr (lit ''{saved}'') \<and>
   lit ''{saved}'' = JSON_stringify unchanged_env current_state \<and>
   JSON_parse unchanged_env (lit ''{saved}'') = Some current_state \<and>
   (\<exists>v. map_of current_state (guid item_a) = Some v \<and>
       stored_hash v = hashDescription unchanged_env (description item_a)) \<and>
   processIncidents unchanged_env = ([WriteFile (lit ''{saved}'')], Inr ())"
proof -
  have a: "fetched_feed unchanged_env = Inr [item_a]"
    by (simp add: unchanged_env_def sample_env_def)
  have b: "readFile unchanged_env = Inr (lit ''{saved}'')"
    by (simp add: unchanged_env_def sample_env_def)
  have c: "lit ''{saved}'' = JSON_stringify unchanged_env current_state"
    by (simp add: unchanged_env_def sample_env_def)
  have d: "JSON_parse unchanged_env (lit ''{saved}'') = Some current_state"
    by (simp add: unchanged_env_def sample_env_def)
  have e: "\<forall>it\<in>set [item_a]. \<exists>v. map_of current_state (guid it) = Some v \<and>
       stored_hash v = hashDescription unchanged_env (description it)"
    by (simp add: unchanged_env_def sample_env_def item_a_def sample_item_def sample_entry_def current_state_def
        hashDescription_def slice_def slice_index_def lit_def)
  have s: "saveState unchanged_env current_state = ([WriteFile (lit ''{saved}'')], Inr ())"
    by (simp add: saveState_def unchanged_env_def sample_env_def Let_def)
  have "processIncidents unchanged_env = saveState unchanged_env current_state"
    using unchanged_feed_is_idempotent[OF a b c d e] by (elim conjE)
  then have "processIncidents unchanged_env = ([WriteFile (lit ''{saved}'')], Inr ())"
    unfolding s .
  moreover from e have "\<exists>v. map_of current_state (guid item_a) = Some v \<and>
       stored_hash v = hashDescription unchanged_env (description item_a)" by simp
  ultimately show ?thesis using a b c d by (intro conjI)
qed

subsection \<open>Failed calls\<close>

lemma saveState_cases:
  "saveState env st = ([WriteFile (JSON_stringify env st)], case writeFile env (JSON_stringify env st) of Some e \<Rightarrow> Inl e | None \<Rightarrow> Inr ()) \<and> existsSync_cache env \<or>
   saveState env st = ([Mkdir, WriteFile (JSON_stringify env st)], case writeFile env (JSON_stringify env st) of Some e \<Rightarrow> Inl e | None \<Rightarrow> Inr ()) \<and> \<not> existsSync_cache env \<and> mkdir env = None \<or>
   (\<exists>e. saveState env st = ([Mkdir], Inl e)) \<and> \<not> existsSync_cache env \<and> mkdir env \<noteq> None"
  by (auto simp: saveState_def Let_def split: option.splits)

text \<open>
  Claim C7. When a call of \<open>postNewIncident\<close> or \<open>updateIncidentMessage\<close> throws, the run
  ends with that error and exit code 1, and its effects are Notifier calls only: neither
  \<open>mkdir\<close> nor \<open>writeFile\<close> is called. A write to the state file happens only after the
  loop has processed every feed item without a failed call, it is the last effect of
  the run, and it writes the final state; a run writes at most once, and exactly once
  when the loop reaches its end and \<open>mkdir\<close> does not fail.
\<close>

theorem notifier_failure_persists_nothing:
  assumes feed: "fetched_feed env = Inr feedItems"
  shows "((\<exists>c\<in>set (fst (processIncidents env)). failed_call c) \<longrightarrow>
            (\<exists>e. snd (processIncidents env) = Inl e) \<and> snd (main env) = 1 \<and>
            (\<forall>c\<in>set (fst (processIncidents env)). is_notifier_call c)) \<and>
         (\<forall>content. WriteFile content \<in> set (fst (processIncidents env)) \<longrightarrow>
            (\<exists>calls final.
               reconcile env (loadState env = []) 0 feedItems (loadState env) 0 = (calls, Inr final) \<and>
               content = JSON_stringify env final \<and>
               fst (processIncidents env) =
                 calls @ (if existsSync_cache env then [] else [Mkdir]) @ [WriteFile content] \<and>
               (\<forall>c\<in>set calls. is_notifier_call c \<and> \<not> failed_call c))) \<and>
         (\<forall>calls final.
            reconcile env (loadState env = []) 0 feedItems (loadState env) 0 = (calls, Inr final) \<and>
            (existsSync_cache env \<or> mkdir env = None) \<longrightarrow>
            filter is_write (fst (processIncidents env)) = [WriteFile (JSON_stringify env final)]) \<and>
         length (filter is_write (fst (processIncidents env))) \<le> 1"
proof -
  obtain calls r where rc: "reconcile env (loadState env = []) 0 feedItems (loadState env) 0 = (calls, r)"
    by (cases "reconcile env (loadState env = []) 0 feedItems (loadState env) 0")
  note nc = reconcile_calls[OF rc]
  note fl = reconcile_failed[OF rc]
  have nw: "filter is_write calls = []"
  proof -
    have "\<not> is_write c" if "is_notifier_call c" for c using that by (cases c) auto
    with nc show ?thesis by (auto simp: filter_empty_conv)
  qed
  show ?thesis
  proof (cases r)
    case (Inl e)
    with processIncidents_eq[OF feed] rc have p: "processIncidents env = (calls, Inl e)" by simp
    then have "main env = (calls, 1)" by (simp add: main_def)
    with p nc nw rc Inl show ?thesis by auto
  next
    case (Inr final)
    with processIncidents_eq[OF feed] rc
    have p: "processIncidents env = (calls @ fst (saveState env final), snd (saveState env final))"
      by simp
    from fl Inr have nf: "\<forall>c\<in>set calls. \<not> failed_call c" by auto
    have nn: "\<And>content. WriteFile content \<notin> set calls" using nc by fastforce
    from saveState_cases[of env final] show ?thesis
    proof (elim disjE conjE exE)
      assume s: "saveState env final = ([WriteFile (JSON_stringify env final)], case writeFile env (JSON_stringify env final) of Some e \<Rightarrow> Inl e | None \<Rightarrow> Inr ())"
        and ex: "existsSync_cache env"
      show ?thesis unfolding p s using nc nf nn nw rc Inr ex by auto
    next
      assume s: "saveState env final = ([Mkdir, WriteFile (JSON_stringify env final)], case writeFile env (JSON_stringify env final) of Some e \<Rightarrow> Inl e | None \<Rightarrow> Inr ())"
        and ex: "\<not> existsSync_cache env"
      show ?thesis unfolding p s using nc nf nn nw rc Inr ex by auto
    next
      fix e assume s: "saveState env final = ([Mkdir], Inl e)"
        and ex: "\<not> existsSync_cache env" "mkdir env \<noteq> None"
      show ?thesis unfolding p s using nc nf nn nw rc Inr ex by auto
    qed
  qed
qed

lemma rejected_run:
  "processIncidents rejecting_env =
     ([Send (spread_item item_a (extractCurrentStatus (lit ''Resolved'')) (lit ''14 Jan 2026''))
         (Inl (Error (lit ''Failed to post message: channel_not_found'')))],
      Inl (Error (lit ''Failed to post message: channel_not_found'')))"
  by (simp add: processIncidents_def reconcile_def process_item_def rejecting_env_def sample_env_def
      item_a_def
      sample_item_def token_def slack_not_ok_def hashDescription_def slice_def slice_index_def loadState_def saveState_def
      slack_configured_def postNewIncident_def updateIncidentMessage_def spread_item_def
      get_property_def set_property_def Object_prototype_names_def lit_def Let_def)

lemma unchanged_run:
  "processIncidents unchanged_env = ([WriteFile (lit ''{saved}'')], Inr ())"
  by (simp add: processIncidents_def reconcile_def process_item_def unchanged_env_def sample_env_def
      item_a_def sample_item_def sample_entry_def
      current_state_def hashDescription_def slice_def slice_index_def loadState_def saveState_def
      slack_configured_def postNewIncident_def updateIncidentMessage_def spread_item_def
      get_property_def set_property_def lit_def Let_def)

theorem notifier_failure_persists_nothing_witness:
  "fetched_feed rejecting_env = Inr [item_a] \<and>
   (\<exists>c\<in>set (fst (processIncidents rejecting_env)). failed_call c) \<and>
   snd (main rejecting_env) = 1 \<and>
   list_all is_notifier_call (fst (processIncidents rejecting_env)) \<and>
   fetched_feed unchanged_env = Inr [item_a] \<and>
   WriteFile (lit ''{saved}'') \<in> set (fst (processIncidents unchanged_env)) \<and>
   (\<exists>calls final.
      reconcile unchanged_env (loadState unchanged_env = []) 0 [item_a] (loadState unchanged_env) 0 =
        (calls, Inr final) \<and>
      lit ''{saved}'' = JSON_stringify unchanged_env final) \<and>
   length (filter is_write (fst (processIncidents unchanged_env))) \<le> 1"
proof -
  have a: "fetched_feed rejecting_env = Inr [item_a]"
    by (simp add: rejecting_env_def sample_env_def)
  have b: "\<exists>c\<in>set (fst (processIncidents rejecting_env)). failed_call c"
    by (simp add: rejected_run)
  have c: "fetched_feed unchanged_env = Inr [item_a]"
    by (simp add: unchanged_env_def sample_env_def)
  have d: "WriteFile (lit ''{saved}'') \<in> set (fst (processIncidents unchanged_env))"
    by (simp add: unchanged_run)
  from notifier_failure_persists_nothing[OF a] b
  have "snd (main rejecting_env) = 1 \<and>
        (\<forall>c\<in>set (fst (processIncidents rejecting_env)). is_notifier_call c)"
    by blast
  then have "snd (main rejecting_env) = 1 \<and>
        list_all is_notifier_call (fst (processIncidents rejecting_env))"
    by (simp add: list_all_iff)
  moreover from notifier_failure_persists_nothing[OF c]
  have "length (filter is_write (fst (processIncidents unchanged_env))) \<le> 1"
    by blast
  moreover from notifier_failure_persists_nothing[OF c] d
  have "\<exists>calls final.
      reconcile unchanged_env (loadState unchanged_env = []) 0 [item_a] (loadState unchanged_env) 0 =
        (calls, Inr final) \<and>
      lit ''{saved}'' = JSON_stringify unchanged_env final"
    by blast
  ultimately show ?thesis using a b c d by (intro conjI) blast+
qed

subsection \<open>Loading the state\<close>

text \<open>
  Claim C8, as the code has it. \<open>loadState\<close> has no error result. It returns the empty
  mapping whenever \<open>readFile\<close> fails, whether the file is absent or cannot be read for
  another reason, and whenever the content fails to parse; otherwise it returns what
  \<open>JSON.parse\<close> decoded.
\<close>

theorem loadState_read_or_parse_failure:
  "(\<forall>e. readFile env = Inl e \<longrightarrow> loadState env = []) \<and>
   (\<forall>content. readFile env = Inr content \<and> JSON_parse env content = None \<longrightarrow> loadState env = []) \<and>
   (\<forall>content state. readFile env = Inr content \<and> JSON_parse env content = Some state \<longrightarrow>
      loadState env = state)"
  by (simp add: loadState_def)

theorem loadState_read_or_parse_failure_witness:
  "readFile first_run_env = Inl ENOENT \<and> loadState first_run_env = [] \<and>
   readFile corrupt_env = Inr (lit ''{sav'') \<and> JSON_parse corrupt_env (lit ''{sav'') = None \<and>
   loadState corrupt_env = [] \<and>
   readFile unchanged_env = Inr (lit ''{saved}'') \<and>
   JSON_parse unchanged_env (lit ''{saved}'') = Some current_state \<and>
   loadState unchanged_env = current_state"
proof -
  have a: "readFile first_run_env = Inl ENOENT"
    by (simp add: first_run_env_def sample_env_def)
  have b: "readFile corrupt_env = Inr (lit ''{sav'') \<and> JSON_parse corrupt_env (lit ''{sav'') = None"
    by (simp add: corrupt_env_def sample_env_def lit_def)
  have c: "readFile unchanged_env = Inr (lit ''{saved}'') \<and>
           JSON_parse unchanged_env (lit ''{saved}'') = Some current_state"
    by (simp add: unchanged_env_def sample_env_def)
  from loadState_read_or_parse_failure[of first_run_env] a
  have "loadState first_run_env = []" by blast
  moreover from loadState_read_or_parse_failure[of corrupt_env] b
  have "loadState corrupt_env = []" by blast
  moreover from loadState_read_or_parse_failure[of unchanged_env] c
  have "loadState unchanged_env = current_state" by blast
  ultimately show ?thesis using a b c by blast
qed

text \<open>
  The state file exists but cannot be read (\<open>EACCES\<close>): the file is not absent, nothing
  failed to parse, and the result is the empty mapping, not a mapping decoded from the
  file.
\<close>
theorem loadState_unreadable_file_counterexample:
  "readFile unreadable_env = Inl EACCES \<and> loadState unreadable_env = [] \<and>
   JSON_parse unreadable_env (lit ''{saved}'') = Some current_state \<and> current_state \<noteq> []"
  by (simp add: unreadable_env_def sample_env_def loadState_def current_state_def)

subsection \<open>Dry run\<close>

lemma postNewIncident_unconfigured:
  "\<not> slack_configured env \<Longrightarrow> postNewIncident env k incident = Inr None"
  by (simp add: postNewIncident_def)

text \<open>Without a token or a channel no step fails.\<close>

lemma process_item_unconfigured_returns:
  assumes "\<not> slack_configured env"
  shows "\<exists>cs obj' n'. process_item env fr k it obj n = (cs, Inr (obj', n'))"
  using assms
  by (auto simp: process_item_def Let_def postNewIncident_def updateIncidentMessage_def
      split: option.splits jsval.splits stored.splits)

text \<open>
  Without a token or a channel, a step on an item with an ordinary identifier leaves an
  entry that was never posted, or that did not exist, without a message identifier.
\<close>

lemma process_item_unconfigured:
  assumes "\<not> slack_configured env" "guid it \<notin> set Object_prototype_names"
  shows "\<exists>cs st' n'. process_item env fr k it (st, None) n = (cs, Inr ((st', None), n')) \<and>
     (\<forall>key. null_or_absent st key \<longrightarrow> null_or_absent st' key) \<and>
     fst ` set st' = insert (guid it) (fst ` set st)"
proof -
  from process_item_unconfigured_returns[OF assms(1), of fr k it "(st, None)" n]
  obtain cs st' pr' n' where p: "process_item env fr k it (st, None) n = (cs, Inr ((st', pr'), n'))"
    by auto
  from process_item_ordinary[OF p assms(2)]
  have pr: "pr' = None" and ks: "fst ` set st' = insert (guid it) (fst ` set st)"
    by simp_all
  have "null_or_absent st' key" if na: "null_or_absent st key" for key
  proof (cases "key = guid it")
    case False
    with process_item_other[OF p] have "map_of st' key = map_of st key" by simp
    with na show ?thesis by (simp add: null_or_absent_def)
  next
    case True
    show ?thesis
    proof (cases "map_of st (guid it)")
      case None
      then have g: "get_property st None (guid it) = Undefined"
        using assms(2) by (simp add: get_property_ordinary)
      from process_item_writes[OF p] g
        postNewIncident_unconfigured[OF assms(1), of k
          "spread_item it (extractCurrentStatus (description it)) (pubDate it)"]
      obtain e where "(st', pr') = set_property st None (guid it) (Entry e)"
        "slack_message_ts e = None"
        by auto
      then have "map_of st' (guid it) = Some (Entry e)"
        by (simp add: set_property_ordinary[OF assms(2)] update_conv')
      with \<open>slack_message_ts e = None\<close> True show ?thesis by (simp add: null_or_absent_def)
    next
      case (Some v)
      with na True obtain e where v: "v = Entry e" "slack_message_ts e = None"
        by (auto simp: null_or_absent_def)
      from process_item_same[OF p Some] obtain v' where
        "map_of st' (guid it) = Some v'" "keeps v v'" by auto
      with v True show ?thesis by (auto simp: null_or_absent_def keeps_def)
    qed
  qed
  with p pr ks show ?thesis by blast
qed

lemma reconcile_loop_unconfigured:
  assumes "\<not> slack_configured env" "\<forall>it\<in>set items. guid it \<notin> set Object_prototype_names"
  shows "\<exists>calls final. reconcile_loop env fr k items (st, None) n = (calls, Inr (final, None)) \<and>
     (\<forall>key. null_or_absent st key \<longrightarrow> null_or_absent final key) \<and>
     fst ` set final = guid ` set items \<union> fst ` set st"
  using assms(2)
proof (induction items arbitrary: st n k)
  case Nil
  show ?case by simp
next
  case (Cons it its)
  from Cons.prems have oi: "guid it \<notin> set Object_prototype_names"
    and orest: "\<forall>it'\<in>set its. guid it' \<notin> set Object_prototype_names"
    by simp_all
  from process_item_unconfigured[OF assms(1) oi, of fr k st n] obtain cs st1 n1 where
    p: "process_item env fr k it (st, None) n = (cs, Inr ((st1, None), n1))"
      "\<forall>key. null_or_absent st key \<longrightarrow> null_or_absent st1 key"
      "fst ` set st1 = insert (guid it) (fst ` set st)"
    by blast
  from Cons.IH[OF orest, of "Suc k" st1 n1] obtain cs' final where
    r: "reconcile_loop env fr (Suc k) its (st1, None) n1 = (cs', Inr (final, None))"
      "\<forall>key. null_or_absent st1 key \<longrightarrow> null_or_absent final key"
      "fst ` set final = guid ` set its \<union> fst ` set st1"
    by blast
  have "reconcile_loop env fr k (it # its) (st, None) n = (cs @ cs', Inr (final, None))"
    using p(1) r(1) by simp
  moreover have "\<forall>key. null_or_absent st key \<longrightarrow> null_or_absent final key"
    using p(2) r(2) by blast
  moreover have "fst ` set final = guid ` set (it # its) \<union> fst ` set st"
    using p(3) r(3) by auto
  ultimately show ?case by blast
qed

text \<open>
  Without a token or a channel identifier \<open>postNewIncident\<close> returns \<open>null\<close>, and every
  item of a feed of ordinary identifiers that had no own property when such a run
  started is stored with a \<open>null\<close> message identifier. In every sequence of later runs,
  whatever their environments and feeds, an entry with a \<open>null\<close> message identifier
  keeps it, and no Notifier call is made about its incident.
\<close>

theorem ordinary_unconfigured_incidents_stay_suppressed:
  "(\<not> slack_configured env \<longrightarrow> postNewIncident env k incident = Inr None) \<and>
   (\<not> slack_configured env \<and> ordinary_guids feedItems \<and> it \<in> set feedItems \<and>
    map_of state (guid it) = None \<longrightarrow>
      (\<exists>calls final e.
         reconcile env isFirstRun 0 feedItems state newCount = (calls, Inr final) \<and>
         map_of final (guid it) = Some (Entry e) \<and> slack_message_ts e = None)) \<and>
   (\<forall>key e calls final.
      map_of state key = Some (Entry e) \<and> slack_message_ts e = None \<and>
      successive_runs runs state = (calls, final) \<longrightarrow>
      (\<exists>e'. map_of final key = Some (Entry e') \<and> slack_message_ts e' = None) \<and>
      (\<forall>c\<in>set calls. call_guid c \<noteq> Some key))"
proof (intro conjI allI impI)
  assume "\<not> slack_configured env"
  then show "postNewIncident env k incident = Inr None" by (rule postNewIncident_unconfigured)
next
  assume a: "\<not> slack_configured env \<and> ordinary_guids feedItems \<and> it \<in> set feedItems \<and>
    map_of state (guid it) = None"
  then have o: "\<forall>it\<in>set feedItems. guid it \<notin> set Object_prototype_names"
    by (simp add: ordinary_guids_def)
  from a reconcile_loop_unconfigured[OF _ o, of env isFirstRun 0 state newCount]
  obtain calls final where
    l: "reconcile_loop env isFirstRun 0 feedItems (state, None) newCount = (calls, Inr (final, None))"
      "\<forall>key. null_or_absent state key \<longrightarrow> null_or_absent final key"
      "fst ` set final = guid ` set feedItems \<union> fst ` set state"
    by blast
  have r: "reconcile env isFirstRun 0 feedItems state newCount = (calls, Inr final)"
    using l(1) by (simp add: reconcile_def)
  from a have "null_or_absent state (guid it)" by (simp add: null_or_absent_def)
  with l(2) have n: "null_or_absent final (guid it)" by blast
  from l(3) a have "guid it \<in> fst ` set final" by auto
  then have "map_of final (guid it) \<noteq> None" by (simp add: keys_map_of)
  with n obtain e where "map_of final (guid it) = Some (Entry e)" "slack_message_ts e = None"
    by (auto simp: null_or_absent_def)
  with r show "\<exists>calls final e.
         reconcile env isFirstRun 0 feedItems state newCount = (calls, Inr final) \<and>
         map_of final (guid it) = Some (Entry e) \<and> slack_message_ts e = None" by blast
next
  fix key e calls final
  assume a: "map_of state key = Some (Entry e) \<and> slack_message_ts e = None \<and>
      successive_runs runs state = (calls, final)"
  then obtain v' where "map_of final key = Some v'" "keeps (Entry e) v'"
    using successive_runs_entry_kept[of runs state calls final key "Entry e"] by blast
  with a show "\<exists>e'. map_of final key = Some (Entry e') \<and> slack_message_ts e' = None"
    by (auto simp: keeps_def)
  from a show "\<forall>c\<in>set calls. call_guid c \<noteq> Some key"
    using successive_runs_null_silent[of runs state calls final key "Entry e"] by simp
qed

lemma suppressed_later_run:
  "successive_runs [(edit_env, [item_a])] suppressed_state =
     ([], [(lit ''a'',
            Entry ((sample_entry ''old'' None)
              \<lparr>description_hash := lit ''Resolved'',
               entry_status := extractCurrentStatus (lit ''Resolved''),
               last_updated := lit ''2026-01-14T14:20:00.000Z''\<rparr>))])"
  by (simp add: reconcile_def process_item_def edit_env_def sample_env_def item_a_def sample_item_def
      sample_entry_def suppressed_state_def
      hashDescription_def slice_def slice_index_def loadState_def saveState_def
      slack_configured_def postNewIncident_def updateIncidentMessage_def spread_item_def
      get_property_def set_property_def lit_def Let_def)

theorem ordinary_unconfigured_incidents_stay_suppressed_example:
  "\<not> slack_configured dry_run_env \<and>
   postNewIncident dry_run_env 0 (spread_item item_a Resolved (pubDate item_a)) = Inr None \<and>
   ordinary_guids [item_a] \<and>
   item_a \<in> set [item_a] \<and> map_of [] (guid item_a) = None \<and>
   (\<exists>calls final e.
      reconcile dry_run_env True 0 [item_a] [] 0 = (calls, Inr final) \<and>
      map_of final (guid item_a) = Some (Entry e) \<and> slack_message_ts e = None) \<and>
   map_of suppressed_state (lit ''a'') = Some (Entry (sample_entry ''old'' None)) \<and>
   slack_message_ts (sample_entry ''old'' None) = None \<and>
   successive_runs [(edit_env, [item_a])] suppressed_state =
     ([], [(lit ''a'',
            Entry ((sample_entry ''old'' None)
              \<lparr>description_hash := lit ''Resolved'',
               entry_status := extractCurrentStatus (lit ''Resolved''),
               last_updated := lit ''2026-01-14T14:20:00.000Z''\<rparr>))]) \<and>
   (\<exists>e'. map_of [(lit ''a'',
            Entry ((sample_entry ''old'' None)
              \<lparr>description_hash := lit ''Resolved'',
               entry_status := extractCurrentStatus (lit ''Resolved''),
               last_updated := lit ''2026-01-14T14:20:00.000Z''\<rparr>))] (lit ''a'') = Some (Entry e') \<and>
         slack_message_ts e' = None)"
proof -
  define final where "final = [(lit ''a'',
            Entry ((sample_entry ''old'' None)
              \<lparr>description_hash := lit ''Resolved'',
               entry_status := extractCurrentStatus (lit ''Resolved''),
               last_updated := lit ''2026-01-14T14:20:00.000Z''\<rparr>))]"
  have a: "\<not> slack_configured dry_run_env"
    by (simp add: dry_run_env_def sample_env_def slack_configured_def)
  have og: "ordinary_guids [item_a]"
    by (simp add: ordinary_guids_def Object_prototype_names_def item_a_def sample_item_def lit_def)
  have b: "item_a \<in> set [item_a]" "map_of [] (guid item_a) = None" by simp_all
  have c: "map_of suppressed_state (lit ''a'') = Some (Entry (sample_entry ''old'' None))"
    by (simp add: suppressed_state_def)
  have d: "slack_message_ts (sample_entry ''old'' None) = None"
    by (simp add: sample_entry_def)
  have e: "successive_runs [(edit_env, [item_a])] suppressed_state = ([], final)"
    unfolding final_def by (rule suppressed_later_run)
  note t = ordinary_unconfigured_incidents_stay_suppressed[of dry_run_env 0
      "spread_item item_a Resolved (pubDate item_a)" "[item_a]" item_a "[]" True 0
      "[(edit_env, [item_a])]"]
  note u = ordinary_unconfigured_incidents_stay_suppressed[of dry_run_env 0
      "spread_item item_a Resolved (pubDate item_a)" "[item_a]" item_a suppressed_state True 0
      "[(edit_env, [item_a])]"]
  from t a have r1: "postNewIncident dry_run_env 0 (spread_item item_a Resolved (pubDate item_a)) = Inr None"
    by blast
  from t a og b have r2: "\<exists>calls final e.
      reconcile dry_run_env True 0 [item_a] [] 0 = (calls, Inr final) \<and>
      map_of final (guid item_a) = Some (Entry e) \<and> slack_message_ts e = None"
    by blast
  from u c d e have r3: "\<exists>e'. map_of final (lit ''a'') = Some (Entry e') \<and> slack_message_ts e' = None"
    by blast
  from a og b c d e r1 r2 r3 show ?thesis unfolding final_def by (intro conjI)
qed

text \<open>
  Claim C10, on the code: a first run without a token whose feed holds one incident,
  with the identifier \<open>__proto__\<close>. \<open>state["__proto__"]\<close> is \<open>Object.prototype\<close>, so the
  incident takes the branch of an updated incident and the assignment
  \<open>state["__proto__"] = ...\<close> replaces the prototype of the state object: the incident is
  first seen in this run and no own property is stored for it, so the state written is
  empty. The same run on the identifier \<open>constructor\<close> stores an object that has a
  fingerprint, a status and a time and no field \<open>slack_message_ts\<close>. A later run with a
  token starts from the empty state again and makes no call.
\<close>

theorem unconfigured_proto_guid_is_not_stored:
  "\<not> slack_configured proto_dry_run_env \<and>
   loadState proto_dry_run_env = [] \<and>
   fetched_feed proto_dry_run_env = Inr [sample_item ''__proto__'' ''Resolved''] \<and>
   map_of [] (guid (sample_item ''__proto__'' ''Resolved'')) = None \<and>
   get_property [] None (guid (sample_item ''__proto__'' ''Resolved'')) = ObjectPrototype \<and>
   reconcile_loop proto_dry_run_env True 0 [sample_item ''__proto__'' ''Resolved''] ([], None) 0 =
     ([], Inr ([], Some (Partial [] (lit ''Resolved'') (extractCurrentStatus (lit ''Resolved''))
                           (lit ''2026-01-14T14:20:00.000Z'')))) \<and>
   reconcile proto_dry_run_env True 0 [sample_item ''__proto__'' ''Resolved''] [] 0 = ([], Inr []) \<and>
   processIncidents proto_dry_run_env = ([WriteFile (JSON_stringify proto_dry_run_env [])], Inr ()) \<and>
   reconcile proto_dry_run_env True 0 [sample_item ''constructor'' ''Resolved''] [] 0 =
     ([], Inr [(lit ''constructor'',
                Partial [] (lit ''Resolved'') (extractCurrentStatus (lit ''Resolved''))
                  (lit ''2026-01-14T14:20:00.000Z''))]) \<and>
   successive_runs
       [(proto_dry_run_env, [sample_item ''__proto__'' ''Resolved'']),
        (edit_env, [sample_item ''__proto__'' ''Resolved''])] [] = ([], [])"
  by (simp add: processIncidents_def reconcile_def process_item_def proto_dry_run_env_def
      edit_env_def
      sample_env_def sample_item_def token_def slack_ok_def hashDescription_def slice_def
      slice_index_def loadState_def saveState_def slack_configured_def postNewIncident_def
      updateIncidentMessage_def spread_item_def get_property_def set_property_def
      Object_prototype_names_def lit_def Let_def)

end
